theory Spec2Isabelle
  imports Main
begin

section \<open>Data model of \<open>codeExecutionService.ts\<close>\<close>

text \<open>
  The type declarations \<open>CodeBlock\<close>, \<open>ExecutionResult\<close>, \<open>JupyterMessage\<close>,
  \<open>MessageStatus\<close> and \<open>JupyterServer\<close> are imported by the service from other modules.
  The records below carry the fields the service reads and writes. \<open>hasError\<close> is optional:
  \<open>executeCode\<close> builds a block without it, so \<open>None\<close> stands for \<open>undefined\<close>.
  A JavaScript string is a \<open>string\<close>; it is truthy when it is not empty.
\<close>

record JupyterServer =
  ip :: string
  port :: string
  token :: string

record CodeBlock =
  cb_id :: string
  cb_notebookId :: string
  cb_code :: string
  cb_hasError :: "bool option"

record ExecutionResult =
  er_id :: string
  er_hasError :: "bool option"
  er_output :: string

record MessageStatus =
  ms_done :: bool
  ms_output :: string

text \<open>The outbound envelope built by \<open>createExecuteRequestMessage\<close>.\<close>

record ExecuteRequest =
  msg_id :: string
  username :: string
  session :: string
  msg_type :: string
  version :: string
  code :: string
  silent :: bool
  store_history :: bool
  allow_stdin :: bool
  channel :: string

text \<open>
  What the message handler reads of an inbound envelope. Every field may be absent
  (\<open>None\<close> is \<open>undefined\<close>); \<open>in_msg_type\<close> is \<open>msg.header?.msg_type\<close> and
  \<open>in_parent\<close> is \<open>msg.parent_header?.msg_id\<close>.
\<close>

record MimeBundle =
  text_plain :: "string option"
  text_html :: "string option"
  image_png :: "string option"

record Content =
  ct_text :: "string option"
  ct_data :: "MimeBundle option"
  ename :: "string option"
  evalue :: "string option"
  traceback :: "string list option"
  execution_state :: "string option"

record Inbound =
  in_msg_type :: "string option"
  in_parent :: "string option"
  in_content :: "Content option"

text \<open>
  \<open>event.data\<close>, seen through \<open>JSON.parse\<close>: the text does not parse (\<open>JSON.parse\<close> throws
  a SyntaxError), it parses to \<open>null\<close>, or it parses to a value whose properties can be read.
\<close>

datatype payload = Unparseable | ParsedNull | Parsed Inbound

datatype js_error = SyntaxError | TypeError

datatype promise = Pending | Resolved "ExecutionResult list" | Rejected string

datatype event = OnOpen | OnMessage payload | OnError | OnClose

text \<open>
  The closure of the promise executor in \<open>executeNotebookBlocks\<close>: the local variables,
  the \<open>hasError\<close> fields of the caller's blocks (the handler writes them), and what the
  executor did to the outside: the texts passed to \<open>ws.send\<close>, whether \<open>ws.close()\<close> was
  called, the calls of \<open>onOutput\<close> and the state of the returned promise.
\<close>

record coord =
  codeBlocks :: "CodeBlock list"
  results :: "string \<rightharpoonup> string"
  currentBlockIndex :: nat
  messageStatus :: "string \<rightharpoonup> MessageStatus"
  created :: nat
  sent :: "ExecuteRequest list"
  closed :: bool
  settled :: promise
  emitted :: "(string \<times> string) list"
  ws_url :: string

text \<open>
  What the run takes from outside: \<open>nonce k\<close> is the text of
  \<open>Date.now()\<close>, a dash and \<open>Math.random()\<close> at the \<open>k\<close>-th call of
  \<open>createExecuteRequestMessage\<close>, and \<open>onOutput\<close> tells whether the caller passed a callback.
\<close>

record env =
  nonce :: "nat \<Rightarrow> string"
  onOutput :: bool

section \<open>URLs\<close>

text \<open>\<open>String.prototype.replace\<close> with a string pattern replaces the first occurrence.\<close>

fun replace_first :: "string \<Rightarrow> string \<Rightarrow> string \<Rightarrow> string" where
  "replace_first pat rep [] = (if pat = [] then rep else [])"
| "replace_first pat rep (c # cs) =
     (if take (length pat) (c # cs) = pat then rep @ drop (length pat) (c # cs)
      else c # replace_first pat rep cs)"

definition getBaseUrl :: "JupyterServer \<Rightarrow> string" where
  "getBaseUrl server =
     (let protocol = (if take 4 (ip server) = ''http'' then '''' else ''http://'')
      in protocol @ ip server @ '':'' @ port server)"

definition getUrlWithToken :: "JupyterServer \<Rightarrow> string \<Rightarrow> string" where
  "getUrlWithToken serverConfig endpoint =
     (let url = getBaseUrl serverConfig @ endpoint
      in if token serverConfig \<noteq> [] then url @ ''?token='' @ token serverConfig else url)"

definition getWebSocketUrl :: "JupyterServer \<Rightarrow> string \<Rightarrow> string" where
  "getWebSocketUrl serverConfig kernelId =
     (let baseUrl = replace_first ''https://'' ''wss://''
                      (replace_first ''http://'' ''ws://'' (getBaseUrl serverConfig));
          url = baseUrl @ ''/api/kernels/'' @ kernelId @ ''/channels''
      in if token serverConfig \<noteq> [] then url @ ''?token='' @ token serverConfig else url)"

section \<open>The execute request\<close>

definition createExecuteRequestMessage :: "env \<Rightarrow> nat \<Rightarrow> string \<Rightarrow> ExecuteRequest" where
  "createExecuteRequestMessage e k c =
     (let msgId = ''msg-'' @ nonce e k
      in \<lparr>msg_id = msgId, username = ''bashbook'', session = msgId,
          msg_type = ''execute_request'', version = ''5.0'', code = c, silent = False,
          store_history = True, allow_stdin = False, channel = ''shell''\<rparr>)"

section \<open>The promise\<close>

text \<open>\<open>resolve\<close> and \<open>reject\<close> settle a pending promise and do nothing to a settled one.\<close>

definition resolve :: "ExecutionResult list \<Rightarrow> coord \<Rightarrow> coord" where
  "resolve rs s = (if settled s = Pending then s\<lparr>settled := Resolved rs\<rparr> else s)"

definition reject :: "string \<Rightarrow> coord \<Rightarrow> coord" where
  "reject msg s = (if settled s = Pending then s\<lparr>settled := Rejected msg\<rparr> else s)"

section \<open>\<open>executeNotebookBlocks\<close>\<close>

text \<open>The executor's body up to the handlers: the socket is constructed, nothing is sent.\<close>

definition executeNotebookBlocks :: "JupyterServer \<Rightarrow> string \<Rightarrow> CodeBlock list \<Rightarrow> coord" where
  "executeNotebookBlocks serverConfig kernelId blocks =
     \<lparr>codeBlocks = blocks, results = Map.empty, currentBlockIndex = 0,
      messageStatus = Map.empty, created = 0, sent = [], closed = False, settled = Pending,
      emitted = [], ws_url = getWebSocketUrl serverConfig kernelId\<rparr>"

text \<open>
  Sending the request for the block at the current index: \<open>createExecuteRequestMessage\<close>,
  \<open>messageStatus.set\<close>, \<open>ws.send\<close>. Reading \<open>.code\<close> of a block beyond the list throws.
\<close>

definition send_current :: "env \<Rightarrow> coord \<Rightarrow> coord \<times> js_error option" where
  "send_current e s =
     (if currentBlockIndex s < length (codeBlocks s) then
        (let message = createExecuteRequestMessage e (created s)
                         (cb_code (codeBlocks s ! currentBlockIndex s))
         in (s\<lparr>messageStatus := (messageStatus s)(msg_id message \<mapsto> \<lparr>ms_done = False, ms_output = ''''\<rparr>),
               created := Suc (created s),
               sent := sent s @ [message]\<rparr>, None))
      else (s, Some TypeError))"

definition onopen :: "env \<Rightarrow> coord \<Rightarrow> coord \<times> js_error option" where
  "onopen e s = (if length (codeBlocks s) > 0 then send_current e s else (s, None))"

text \<open>The end of the handler: the callback, then \<open>messageStatus.set(parentMsgId, status)\<close>.\<close>

definition finish :: "env \<Rightarrow> coord \<Rightarrow> string \<Rightarrow> MessageStatus \<Rightarrow> string \<Rightarrow> coord \<times> js_error option" where
  "finish e s parentMsgId status newOutput =
     (if newOutput \<noteq> [] \<and> onOutput e then
        (if currentBlockIndex s < length (codeBlocks s) then
           (s\<lparr>emitted := emitted s @ [(cb_id (codeBlocks s ! currentBlockIndex s), newOutput)],
              messageStatus := (messageStatus s)(parentMsgId \<mapsto> status)\<rparr>, None)
         else (s, Some TypeError))
      else (s\<lparr>messageStatus := (messageStatus s)(parentMsgId \<mapsto> status)\<rparr>, None))"

text \<open>
  \<open>status\<close> is the object stored in the map, so \<open>status.output += ...\<close> and
  \<open>status.done = true\<close> change the map's entry at once.
\<close>

definition append_output :: "coord \<Rightarrow> string \<Rightarrow> MessageStatus \<Rightarrow> string \<Rightarrow> MessageStatus \<times> coord" where
  "append_output s parentMsgId status newOutput =
     (let status' = status\<lparr>ms_output := ms_output status @ newOutput\<rparr>
      in (status', s\<lparr>messageStatus := (messageStatus s)(parentMsgId \<mapsto> status')\<rparr>))"

definition truthy :: "string option \<Rightarrow> bool" where
  "truthy v = (case v of None \<Rightarrow> False | Some x \<Rightarrow> x \<noteq> [])"

definition mime_output :: "MimeBundle \<Rightarrow> string" where
  "mime_output d =
     (if truthy (text_plain d) then the (text_plain d) @ [CHR 0x0A] else '''')
     @ (if truthy (text_html d) then the (text_html d) @ [CHR 0x0A] else '''')
     @ (if truthy (image_png d)
        then ''<img src=\"data:image/png;base64,'' @ the (image_png d) @ ''\" />'' @ [CHR 0x0A]
        else '''')"

text \<open>A template literal prints \<open>undefined\<close> for an absent value.\<close>

definition template :: "string option \<Rightarrow> string" where
  "template v = (case v of None \<Rightarrow> ''undefined'' | Some x \<Rightarrow> x)"

fun join :: "string \<Rightarrow> string list \<Rightarrow> string" where
  "join sep [] = ''''"
| "join sep [x] = x"
| "join sep (x # y # ys) = x @ sep @ join sep (y # ys)"

definition error_output :: "Content \<Rightarrow> string list \<Rightarrow> string" where
  "error_output c tb =
     ''Error: '' @ template (ename c) @ [CHR 0x0A] @ template (evalue c) @ [CHR 0x0A]
     @ join [CHR 0x0A] tb"

text \<open>The value passed to \<open>resolve\<close>: one result for each block, in the blocks' order.\<close>

definition collect_results :: "coord \<Rightarrow> ExecutionResult list" where
  "collect_results s =
     map (\<lambda>block. \<lparr>er_id = cb_id block, er_hasError = cb_hasError block,
                    er_output = (case results s (cb_id block) of
                                   None \<Rightarrow> '''' | Some out \<Rightarrow> out)\<rparr>)
         (codeBlocks s)"

definition on_idle :: "env \<Rightarrow> coord \<Rightarrow> string \<Rightarrow> MessageStatus \<Rightarrow> coord \<times> js_error option" where
  "on_idle e s parentMsgId status =
     (let status' = status\<lparr>ms_done := True\<rparr>;
          s1 = s\<lparr>messageStatus := (messageStatus s)(parentMsgId \<mapsto> status')\<rparr>
      in if currentBlockIndex s < length (codeBlocks s) then
           (let s2 = s1\<lparr>results := (results s1)(cb_id (codeBlocks s ! currentBlockIndex s)
                                                   \<mapsto> ms_output status'),
                        currentBlockIndex := Suc (currentBlockIndex s)\<rparr>
            in if currentBlockIndex s2 < length (codeBlocks s2) then
                 finish e (fst (send_current e s2)) parentMsgId status' ''''
               else
                 (let s3 = s2\<lparr>closed := True\<rparr>
                  in finish e (resolve (collect_results s3) s3) parentMsgId status' ''''))
         else (s1, Some TypeError))"

definition dispatch :: "env \<Rightarrow> coord \<Rightarrow> string \<Rightarrow> MessageStatus \<Rightarrow> Inbound \<Rightarrow> coord \<times> js_error option" where
  "dispatch e s parentMsgId status msg =
     (if in_msg_type msg = Some ''stream'' then
        (case in_content msg of
           None \<Rightarrow> (s, Some TypeError)
         | Some content \<Rightarrow>
             (let newOutput = (if truthy (ct_text content) then the (ct_text content) else '''');
                  (status', s') = append_output s parentMsgId status newOutput
              in finish e s' parentMsgId status' newOutput))
      else if in_msg_type msg = Some ''execute_result'' \<or> in_msg_type msg = Some ''display_data'' then
        (case in_content msg of
           None \<Rightarrow> (s, Some TypeError)
         | Some content \<Rightarrow>
             (case ct_data content of
                None \<Rightarrow> (s, Some TypeError)
              | Some d \<Rightarrow>
                  (let newOutput = mime_output d;
                       (status', s') = append_output s parentMsgId status newOutput
                   in finish e s' parentMsgId status' newOutput)))
      else if in_msg_type msg = Some ''error'' then
        (case in_content msg of
           None \<Rightarrow> (s, Some TypeError)
         | Some content \<Rightarrow>
             (case traceback content of
                None \<Rightarrow> (s, Some TypeError)
              | Some tb \<Rightarrow>
                  (let newOutput = error_output content tb;
                       (status', s') = append_output s parentMsgId status newOutput
                   in if currentBlockIndex s' < length (codeBlocks s') then
                        finish e
                          (s'\<lparr>codeBlocks := (codeBlocks s')[currentBlockIndex s' :=
                                (codeBlocks s' ! currentBlockIndex s')\<lparr>cb_hasError := Some True\<rparr>]\<rparr>)
                          parentMsgId status' newOutput
                      else (s', Some TypeError))))
      else if in_msg_type msg = Some ''status'' then
        (case in_content msg of
           None \<Rightarrow> (s, Some TypeError)
         | Some content \<Rightarrow>
             (if execution_state content = Some ''idle'' \<and> \<not> ms_done status
              then on_idle e s parentMsgId status
              else finish e s parentMsgId status ''''))
      else finish e s parentMsgId status '''')"

definition onmessage :: "env \<Rightarrow> coord \<Rightarrow> payload \<Rightarrow> coord \<times> js_error option" where
  "onmessage e s p =
     (case p of
        Unparseable \<Rightarrow> (s, Some SyntaxError)
      | ParsedNull \<Rightarrow> (s, Some TypeError)
      | Parsed msg \<Rightarrow>
          (if \<not> truthy (in_parent msg) then (s, None)
           else (case messageStatus s (the (in_parent msg)) of
                   None \<Rightarrow> (s, None)
                 | Some status \<Rightarrow> dispatch e s (the (in_parent msg)) status msg)))"

definition onerror :: "coord \<Rightarrow> coord" where
  "onerror s = reject ''WebSocket error'' s"

definition onclose :: "coord \<Rightarrow> coord" where
  "onclose s =
     (if currentBlockIndex s < length (codeBlocks s)
      then reject ''WebSocket closed before execution completed'' s else s)"

text \<open>
  One event of the socket. An exception thrown by a handler leaves the handler; the
  state it had reached stays, and the next event is handled as usual.
\<close>

definition step :: "env \<Rightarrow> coord \<Rightarrow> event \<Rightarrow> coord" where
  "step e s ev =
     (case ev of
        OnOpen \<Rightarrow> fst (onopen e s)
      | OnMessage p \<Rightarrow> fst (onmessage e s p)
      | OnError \<Rightarrow> onerror s
      | OnClose \<Rightarrow> onclose s)"

definition run :: "env \<Rightarrow> coord \<Rightarrow> event list \<Rightarrow> coord" where
  "run e s evs = foldl (step e) s evs"

section \<open>The kernel lifecycle client\<close>

text \<open>
  \<open>fetch\<close> is the runtime's: it is a parameter here. It rejects (a TypeError) or gives a
  response; \<open>rs_json\<close> is what \<open>JSON.parse\<close> makes of the response's text: it does not
  parse, it is \<open>null\<close>, or it is a value whose \<open>id\<close> property is the one given
  (\<open>None\<close> when it has none).
\<close>

datatype json_body = NotJson | JsonNull | JsonValue "string option"

record Response =
  rs_status :: nat
  rs_statusText :: string
  rs_text :: string
  rs_json :: json_body

datatype fetch_outcome = NetworkFailure | Responded Response

datatype request_body = NoBody | NameBody string

record Request =
  rq_method :: string
  rq_url :: string
  rq_body :: request_body

datatype failure = Error string | Thrown js_error

definition ok :: "Response \<Rightarrow> bool" where
  "ok r = (200 \<le> rs_status r \<and> rs_status r \<le> 299)"

fun string_of_nat :: "nat \<Rightarrow> string" where
  "string_of_nat n =
     (if n < 10 then [''0123456789'' ! n]
      else string_of_nat (n div 10) @ [''0123456789'' ! (n mod 10)])"

declare string_of_nat.simps [simp del]

definition createKernel ::
  "(Request \<Rightarrow> fetch_outcome) \<Rightarrow> JupyterServer \<Rightarrow> string \<Rightarrow> failure + string option" where
  "createKernel fetch serverConfig kernelName =
     (case fetch \<lparr>rq_method = ''POST'', rq_url = getUrlWithToken serverConfig ''/api/kernels'',
                   rq_body = NameBody kernelName\<rparr> of
        NetworkFailure \<Rightarrow> Inl (Thrown TypeError)
      | Responded response \<Rightarrow>
          if \<not> ok response then
            Inl (Error (''Failed to create kernel: '' @ string_of_nat (rs_status response) @ '' ''
                        @ rs_statusText response
                        @ (if rs_text response \<noteq> [] then '' - '' @ rs_text response else '''')))
          else
            (case rs_json response of
               NotJson \<Rightarrow> Inl (Error ''Invalid response format from Jupyter server'')
             | JsonNull \<Rightarrow> Inl (Error ''Invalid response format from Jupyter server'')
             | JsonValue i \<Rightarrow> Inr i))"

definition deleteKernel ::
  "(Request \<Rightarrow> fetch_outcome) \<Rightarrow> JupyterServer \<Rightarrow> string \<Rightarrow> failure + unit" where
  "deleteKernel fetch serverConfig kernelId =
     (case fetch \<lparr>rq_method = ''DELETE'',
                   rq_url = getUrlWithToken serverConfig (''/api/kernels/'' @ kernelId),
                   rq_body = NoBody\<rparr> of
        NetworkFailure \<Rightarrow> Inl (Thrown TypeError)
      | Responded response \<Rightarrow>
          if \<not> ok response
          then Inl (Error (''Failed to delete kernel: '' @ rs_statusText response))
          else Inr ())"

text \<open>\<open>response.json()\<close> rejects with the parser's SyntaxError; its value is returned as it is.\<close>

definition listKernels ::
  "(Request \<Rightarrow> fetch_outcome) \<Rightarrow> JupyterServer \<Rightarrow> failure + json_body" where
  "listKernels fetch serverConfig =
     (case fetch \<lparr>rq_method = ''GET'', rq_url = getUrlWithToken serverConfig ''/api/kernels'',
                   rq_body = NoBody\<rparr> of
        NetworkFailure \<Rightarrow> Inl (Thrown TypeError)
      | Responded response \<Rightarrow>
          if \<not> ok response
          then Inl (Error (''Failed to list kernels: '' @ rs_statusText response))
          else (case rs_json response of
                  NotJson \<Rightarrow> Inl (Thrown SyntaxError)
                | v \<Rightarrow> Inr v))"

section \<open>Notions used to state the properties\<close>

text \<open>
  The fragment \<open>newOutput\<close> that the handler's \<open>switch\<close> builds for a message (empty where
  the \<open>switch\<close> builds none or throws before it has one).
\<close>

definition fragment :: "Inbound \<Rightarrow> string" where
  "fragment m =
     (case in_content m of
        None \<Rightarrow> ''''
      | Some content \<Rightarrow>
          if in_msg_type m = Some ''stream'' then
            (if truthy (ct_text content) then the (ct_text content) else '''')
          else if in_msg_type m = Some ''execute_result'' \<or> in_msg_type m = Some ''display_data'' then
            (case ct_data content of None \<Rightarrow> '''' | Some d \<Rightarrow> mime_output d)
          else if in_msg_type m = Some ''error'' then
            (case traceback content of None \<Rightarrow> '''' | Some tb \<Rightarrow> error_output content tb)
          else '''')"

text \<open>
  A payload advances the run when it is an idle status whose parent is a recorded request
  that is not done.
\<close>

definition advancing :: "coord \<Rightarrow> payload \<Rightarrow> bool" where
  "advancing s p =
     (case p of
        Parsed m \<Rightarrow>
          truthy (in_parent m) \<and> in_msg_type m = Some ''status''
          \<and> (case messageStatus s (the (in_parent m)) of
                None \<Rightarrow> False | Some st \<Rightarrow> \<not> ms_done st)
          \<and> (case in_content m of
                None \<Rightarrow> False | Some c \<Rightarrow> execution_state c = Some ''idle'')
      | _ \<Rightarrow> False)"

text \<open>The requests in flight: recorded and not done.\<close>

definition in_flight :: "coord \<Rightarrow> string set" where
  "in_flight s = {k. map_option ms_done (messageStatus s k) = Some False}"

text \<open>What holds of every state after the open signal, for a batch that is not empty.\<close>

definition seq_inv :: "env \<Rightarrow> coord \<Rightarrow> bool" where
  "seq_inv e s =
     (created s = length (sent s)
      \<and> length (sent s) = min (Suc (currentBlockIndex s)) (length (codeBlocks s))
      \<and> 0 < length (codeBlocks s)
      \<and> currentBlockIndex s \<le> length (codeBlocks s)
      \<and> (\<forall>k. map_option ms_done (messageStatus s k) = Some False \<longrightarrow>
             currentBlockIndex s < length (codeBlocks s) \<and> k = msg_id (last (sent s)))
      \<and> map code (sent s) = take (length (sent s)) (map cb_code (codeBlocks s))
      \<and> map msg_id (sent s) = map (\<lambda>k. ''msg-'' @ nonce e k) [0..<length (sent s)]
      \<and> ((\<exists>rs. settled s = Resolved rs) \<or> closed s \<longrightarrow>
            currentBlockIndex s = length (codeBlocks s)))"

text \<open>The event is an error message that the handler processes while block \<open>i\<close> is the current one.\<close>

definition error_for :: "coord \<Rightarrow> event \<Rightarrow> nat \<Rightarrow> bool" where
  "error_for s ev i =
     (case ev of
        OnMessage (Parsed m) \<Rightarrow>
          in_msg_type m = Some ''error'' \<and> truthy (in_parent m)
          \<and> messageStatus s (the (in_parent m)) \<noteq> None \<and> currentBlockIndex s = i
      | _ \<Rightarrow> False)"

text \<open>No event of the list is such a message for block \<open>i\<close>, along the run from \<open>s\<close>.\<close>

fun error_free_for :: "env \<Rightarrow> nat \<Rightarrow> coord \<Rightarrow> event list \<Rightarrow> bool" where
  "error_free_for e i s [] = True"
| "error_free_for e i s (ev # evs) = (\<not> error_for s ev i \<and> error_free_for e i (step e s ev) evs)"

text \<open>
  What holds of every state of every run, whatever the events: the session is closed by the
  run exactly when the last block of a batch that is not empty is done, a resolved promise
  means a closed session, and a closed session a settled promise.
\<close>

definition progress_inv :: "coord \<Rightarrow> bool" where
  "progress_inv s =
     (currentBlockIndex s \<le> length (codeBlocks s)
      \<and> closed s = (0 < length (codeBlocks s) \<and> currentBlockIndex s = length (codeBlocks s))
      \<and> ((\<exists>rs. settled s = Resolved rs) \<longrightarrow> closed s)
      \<and> (closed s \<longrightarrow> settled s \<noteq> Pending))"

text \<open>Concrete inputs for the examples, and the shape of the messages used in them.\<close>

abbreviation demo_env :: env where
  "demo_env \<equiv> \<lparr>nonce = (\<lambda>k. string_of_nat k @ ''-0.5''), onOutput = True\<rparr>"

abbreviation demo_server :: JupyterServer where
  "demo_server \<equiv> \<lparr>ip = ''localhost'', port = ''8888'', token = ''''\<rparr>"

abbreviation demo_block :: "string \<Rightarrow> bool option \<Rightarrow> CodeBlock" where
  "demo_block i h \<equiv> \<lparr>cb_id = i, cb_notebookId = ''nb'', cb_code = ''1+1'', cb_hasError = h\<rparr>"

abbreviation no_content :: Content where
  "no_content \<equiv> \<lparr>ct_text = None, ct_data = None, ename = None, evalue = None,
                   traceback = None, execution_state = None\<rparr>"

abbreviation inbound :: "string \<Rightarrow> string \<Rightarrow> Content \<Rightarrow> Inbound" where
  "inbound t p c \<equiv> \<lparr>in_msg_type = Some t, in_parent = Some p, in_content = Some c\<rparr>"

abbreviation idle_for :: "string \<Rightarrow> Inbound" where
  "idle_for p \<equiv> inbound ''status'' p (no_content\<lparr>execution_state := Some ''idle''\<rparr>)"

text \<open>
  The events of a kernel that answers request \<open>k\<close>, \<open>k + 1\<close>, ... up to \<open>n\<close> with an idle
  status each, and the states of a run that waits for the answer to request \<open>k\<close>.
\<close>

definition answers :: "env \<Rightarrow> nat \<Rightarrow> nat \<Rightarrow> event list" where
  "answers e k n = map (\<lambda>j. OnMessage (Parsed (idle_for (''msg-'' @ nonce e j)))) [k..<n]"

definition awaiting :: "env \<Rightarrow> CodeBlock list \<Rightarrow> nat \<Rightarrow> coord \<Rightarrow> bool" where
  "awaiting e blocks k s =
     (seq_inv e s \<and> currentBlockIndex s = k \<and> k < length blocks \<and> codeBlocks s = blocks
      \<and> messageStatus s (''msg-'' @ nonce e k) = Some \<lparr>ms_done = False, ms_output = ''''\<rparr>
      \<and> settled s = Pending
      \<and> (\<forall>i. results s i = None \<or> results s i = Some ''''))"

section \<open>Effects of the handlers\<close>

lemma map_cb_code_update:
  "map cb_code (xs[i := (xs ! i)\<lparr>cb_hasError := h\<rparr>]) = map cb_code xs"
  by (induction xs arbitrary: i) (simp_all split: nat.splits)

lemma map_cb_id_update:
  "map cb_id (xs[i := (xs ! i)\<lparr>cb_hasError := h\<rparr>]) = map cb_id xs"
  by (induction xs arbitrary: i) (simp_all split: nat.splits)

lemma finish_fields:
  "codeBlocks (fst (finish e s p st out)) = codeBlocks s"
  "results (fst (finish e s p st out)) = results s"
  "currentBlockIndex (fst (finish e s p st out)) = currentBlockIndex s"
  "created (fst (finish e s p st out)) = created s"
  "sent (fst (finish e s p st out)) = sent s"
  "closed (fst (finish e s p st out)) = closed s"
  "settled (fst (finish e s p st out)) = settled s"
  "ws_url (fst (finish e s p st out)) = ws_url s"
  by (simp_all add: finish_def)

lemma finish_messageStatus:
  "messageStatus (fst (finish e s p st out)) k =
     (if out \<noteq> [] \<and> onOutput e \<and> \<not> currentBlockIndex s < length (codeBlocks s)
      then messageStatus s k else ((messageStatus s)(p \<mapsto> st)) k)"
  by (simp add: finish_def)

lemma finish_quiet:
  "finish e s p st '''' = (s\<lparr>messageStatus := (messageStatus s)(p \<mapsto> st)\<rparr>, None)"
  by (simp add: finish_def)

lemma on_idle_throw:
  "\<not> currentBlockIndex s < length (codeBlocks s) \<Longrightarrow>
   on_idle e s p st = (s\<lparr>messageStatus := (messageStatus s)(p \<mapsto> st\<lparr>ms_done := True\<rparr>)\<rparr>, Some TypeError)"
  by (simp add: on_idle_def Let_def)

lemma on_idle_next:
  "Suc (currentBlockIndex s) < length (codeBlocks s) \<Longrightarrow>
   on_idle e s p st =
     (s\<lparr>messageStatus := ((messageStatus s)
            (msg_id (createExecuteRequestMessage e (created s) (cb_code (codeBlocks s ! Suc (currentBlockIndex s))))
               \<mapsto> \<lparr>ms_done = False, ms_output = ''''\<rparr>))(p \<mapsto> st\<lparr>ms_done := True\<rparr>),
        results := (results s)(cb_id (codeBlocks s ! currentBlockIndex s) \<mapsto> ms_output st),
        currentBlockIndex := Suc (currentBlockIndex s),
        created := Suc (created s),
        sent := sent s @ [createExecuteRequestMessage e (created s) (cb_code (codeBlocks s ! Suc (currentBlockIndex s)))]\<rparr>,
      None)"
  by (simp add: on_idle_def Let_def send_current_def finish_quiet)

lemma on_idle_last:
  "currentBlockIndex s < length (codeBlocks s) \<Longrightarrow> \<not> Suc (currentBlockIndex s) < length (codeBlocks s) \<Longrightarrow>
   on_idle e s p st =
     (let s2 = s\<lparr>messageStatus := (messageStatus s)(p \<mapsto> st\<lparr>ms_done := True\<rparr>),
                 results := (results s)(cb_id (codeBlocks s ! currentBlockIndex s) \<mapsto> ms_output st),
                 currentBlockIndex := Suc (currentBlockIndex s),
                 closed := True\<rparr>
      in (if settled s = Pending then s2\<lparr>settled := Resolved (collect_results s2)\<rparr> else s2, None))"
  by (simp add: on_idle_def Let_def resolve_def finish_quiet)

lemma dispatch_quiet:
  assumes "\<not> (in_msg_type m = Some ''status'' \<and> \<not> ms_done st
             \<and> (case in_content m of None \<Rightarrow> False | Some c \<Rightarrow> execution_state c = Some ''idle''))"
  shows "currentBlockIndex (fst (dispatch e s p st m)) = currentBlockIndex s"
    and "sent (fst (dispatch e s p st m)) = sent s"
    and "created (fst (dispatch e s p st m)) = created s"
    and "settled (fst (dispatch e s p st m)) = settled s"
    and "closed (fst (dispatch e s p st m)) = closed s"
    and "results (fst (dispatch e s p st m)) = results s"
    and "length (codeBlocks (fst (dispatch e s p st m))) = length (codeBlocks s)"
    and "map cb_code (codeBlocks (fst (dispatch e s p st m))) = map cb_code (codeBlocks s)"
    and "map cb_id (codeBlocks (fst (dispatch e s p st m))) = map cb_id (codeBlocks s)"
  using assms
  by (auto simp: dispatch_def append_output_def finish_fields map_cb_code_update map_cb_id_update
      Let_def split: option.splits)

lemma dispatch_quiet_done:
  assumes "\<not> (in_msg_type m = Some ''status'' \<and> \<not> ms_done st
             \<and> (case in_content m of None \<Rightarrow> False | Some c \<Rightarrow> execution_state c = Some ''idle''))"
    and "messageStatus s p = Some st"
  shows "map_option ms_done (messageStatus (fst (dispatch e s p st m)) k) = map_option ms_done (messageStatus s k)"
  using assms
  by (auto simp: dispatch_def append_output_def finish_fields finish_messageStatus Let_def split: option.splits)

lemma dispatch_idle:
  assumes "in_msg_type m = Some ''status''" "\<not> ms_done st" "in_content m = Some c" "execution_state c = Some ''idle''"
  shows "dispatch e s p st m = on_idle e s p st"
  using assms unfolding dispatch_def by simp


lemma on_idle_codeBlocks: "codeBlocks (fst (on_idle e s p st)) = codeBlocks s"
  by (simp add: on_idle_def Let_def finish_fields send_current_def resolve_def)

lemma advancingE:
  assumes "advancing s p"
  obtains m st c where "p = Parsed m" "truthy (in_parent m)" "in_msg_type m = Some ''status''"
    "messageStatus s (the (in_parent m)) = Some st" "\<not> ms_done st"
    "in_content m = Some c" "execution_state c = Some ''idle''"
    "onmessage e s p = on_idle e s (the (in_parent m)) st"
  using assms
  by (auto simp: advancing_def onmessage_def dispatch_idle split: payload.splits option.splits)

lemma onmessage_quiet:
  assumes "\<not> advancing s p"
  shows "currentBlockIndex (fst (onmessage e s p)) = currentBlockIndex s"
    and "sent (fst (onmessage e s p)) = sent s"
    and "created (fst (onmessage e s p)) = created s"
    and "settled (fst (onmessage e s p)) = settled s"
    and "closed (fst (onmessage e s p)) = closed s"
    and "results (fst (onmessage e s p)) = results s"
    and "length (codeBlocks (fst (onmessage e s p))) = length (codeBlocks s)"
    and "map cb_code (codeBlocks (fst (onmessage e s p))) = map cb_code (codeBlocks s)"
    and "map cb_id (codeBlocks (fst (onmessage e s p))) = map cb_id (codeBlocks s)"
    and "map_option ms_done (messageStatus (fst (onmessage e s p)) k) = map_option ms_done (messageStatus s k)"
  using assms
  by (auto simp: advancing_def onmessage_def dispatch_quiet dispatch_quiet_done
      split: payload.splits option.splits)


lemma createExecuteRequestMessage_fields:
  "msg_id (createExecuteRequestMessage e k c) = ''msg-'' @ nonce e k"
  "code (createExecuteRequestMessage e k c) = c"
  "msg_type (createExecuteRequestMessage e k c) = ''execute_request''"
  by (simp_all add: createExecuteRequestMessage_def Let_def)

lemma seq_inv_quiet:
  assumes "seq_inv e s" "\<not> advancing s p"
  shows "seq_inv e (fst (onmessage e s p))"
  using assms(1) unfolding seq_inv_def by (simp add: onmessage_quiet [OF assms(2)])

lemma seq_inv_advancing:
  assumes inv: "seq_inv e s" and adv: "advancing s p"
  shows "seq_inv e (fst (onmessage e s p))"
proof -
  from adv obtain m st c where m: "p = Parsed m" "messageStatus s (the (in_parent m)) = Some st"
    "\<not> ms_done st" "onmessage e s p = on_idle e s (the (in_parent m)) st"
    by (rule advancingE [where e = e]) blast
  let ?pid = "the (in_parent m)"
  from inv m(2,3) have cur: "currentBlockIndex s < length (codeBlocks s)" "?pid = msg_id (last (sent s))"
    unfolding seq_inv_def by auto
  from inv cur have len: "length (sent s) = Suc (currentBlockIndex s)"
    unfolding seq_inv_def by simp
  show ?thesis
  proof (cases "Suc (currentBlockIndex s) < length (codeBlocks s)")
    case True
    show ?thesis
      using inv cur len True unfolding seq_inv_def m(4) on_idle_next [OF True]
      by (auto simp: createExecuteRequestMessage_fields take_Suc_conv_app_nth)
  next
    case False
    show ?thesis
      using inv cur len False unfolding seq_inv_def m(4) on_idle_last [OF cur(1) False]
      by (auto simp: Let_def)
  qed
qed

lemma seq_inv_onmessage: "seq_inv e s \<Longrightarrow> seq_inv e (fst (onmessage e s p))"
  by (cases "advancing s p") (simp_all add: seq_inv_quiet seq_inv_advancing)

lemma seq_inv_onerror: "seq_inv e s \<Longrightarrow> seq_inv e (onerror s)"
  by (auto simp: seq_inv_def onerror_def reject_def)

lemma seq_inv_onclose: "seq_inv e s \<Longrightarrow> seq_inv e (onclose s)"
  by (auto simp: seq_inv_def onclose_def reject_def)

lemma seq_inv_step: "seq_inv e s \<Longrightarrow> ev \<noteq> OnOpen \<Longrightarrow> seq_inv e (step e s ev)"
  by (cases ev) (simp_all add: step_def seq_inv_onmessage seq_inv_onerror seq_inv_onclose)

lemma seq_inv_run: "seq_inv e s \<Longrightarrow> OnOpen \<notin> set evs \<Longrightarrow> seq_inv e (run e s evs)"
  unfolding run_def by (induction evs arbitrary: s) (auto simp: seq_inv_step)

lemma seq_inv_open:
  "blocks \<noteq> [] \<Longrightarrow> seq_inv e (step e (executeNotebookBlocks srv kid blocks) OnOpen)"
  by (cases blocks)
    (simp_all add: seq_inv_def step_def onopen_def send_current_def executeNotebookBlocks_def
      createExecuteRequestMessage_fields Let_def)

lemma msg_type_cases:
  obtains (stream) "in_msg_type m = Some ''stream''"
  | (result) "in_msg_type m = Some ''execute_result'' \<or> in_msg_type m = Some ''display_data''"
  | (error) "in_msg_type m = Some ''error''"
  | (status) "in_msg_type m = Some ''status''"
  | (other) "in_msg_type m \<noteq> Some ''stream''" "in_msg_type m \<noteq> Some ''execute_result''"
      "in_msg_type m \<noteq> Some ''display_data''" "in_msg_type m \<noteq> Some ''error''"
      "in_msg_type m \<noteq> Some ''status''"
  by blast

lemma dispatch_stream:
  "in_msg_type m = Some ''stream'' \<Longrightarrow> dispatch e s p st m =
     (case in_content m of
        None \<Rightarrow> (s, Some TypeError)
      | Some content \<Rightarrow>
          (let newOutput = fragment m;
               s' = s\<lparr>messageStatus := (messageStatus s)(p \<mapsto> st\<lparr>ms_output := ms_output st @ newOutput\<rparr>)\<rparr>
           in finish e s' p (st\<lparr>ms_output := ms_output st @ newOutput\<rparr>) newOutput))"
  unfolding dispatch_def fragment_def append_output_def by (simp add: Let_def split: option.splits)

lemma dispatch_result:
  "in_msg_type m = Some ''execute_result'' \<or> in_msg_type m = Some ''display_data'' \<Longrightarrow>
   dispatch e s p st m =
     (case in_content m of
        None \<Rightarrow> (s, Some TypeError)
      | Some content \<Rightarrow>
          (case ct_data content of
             None \<Rightarrow> (s, Some TypeError)
           | Some d \<Rightarrow>
          (let newOutput = fragment m;
               s' = s\<lparr>messageStatus := (messageStatus s)(p \<mapsto> st\<lparr>ms_output := ms_output st @ newOutput\<rparr>)\<rparr>
           in finish e s' p (st\<lparr>ms_output := ms_output st @ newOutput\<rparr>) newOutput)))"
  unfolding dispatch_def fragment_def append_output_def by (auto simp: Let_def split: option.splits)

lemma dispatch_error:
  "in_msg_type m = Some ''error'' \<Longrightarrow>
   dispatch e s p st m =
     (case in_content m of
        None \<Rightarrow> (s, Some TypeError)
      | Some content \<Rightarrow>
          (case traceback content of
             None \<Rightarrow> (s, Some TypeError)
           | Some tb \<Rightarrow>
          (let newOutput = fragment m;
               s' = s\<lparr>messageStatus := (messageStatus s)(p \<mapsto> st\<lparr>ms_output := ms_output st @ newOutput\<rparr>)\<rparr>
           in if currentBlockIndex s < length (codeBlocks s) then
                 finish e
                   (s'\<lparr>codeBlocks := (codeBlocks s)[currentBlockIndex s :=
                         (codeBlocks s ! currentBlockIndex s)\<lparr>cb_hasError := Some True\<rparr>]\<rparr>)
                   p (st\<lparr>ms_output := ms_output st @ newOutput\<rparr>) newOutput
              else (s', Some TypeError))))"
  unfolding dispatch_def fragment_def append_output_def by (simp add: Let_def split: option.splits)

lemma dispatch_status:
  "in_msg_type m = Some ''status'' \<Longrightarrow> dispatch e s p st m =
     (case in_content m of
        None \<Rightarrow> (s, Some TypeError)
      | Some content \<Rightarrow>
          (if execution_state content = Some ''idle'' \<and> \<not> ms_done st
           then on_idle e s p st
           else finish e s p st ''''))"
  unfolding dispatch_def by simp

lemma dispatch_other:
  "in_msg_type m \<noteq> Some ''stream'' \<Longrightarrow> in_msg_type m \<noteq> Some ''execute_result'' \<Longrightarrow>
   in_msg_type m \<noteq> Some ''display_data'' \<Longrightarrow> in_msg_type m \<noteq> Some ''error'' \<Longrightarrow>
   in_msg_type m \<noteq> Some ''status'' \<Longrightarrow> dispatch e s p st m = finish e s p st ''''"
  unfolding dispatch_def by simp

lemma fragment_silent:
  "in_msg_type m = Some ''status'' \<Longrightarrow> fragment m = ''''"
  "in_msg_type m \<noteq> Some ''stream'' \<Longrightarrow> in_msg_type m \<noteq> Some ''execute_result'' \<Longrightarrow>
   in_msg_type m \<noteq> Some ''display_data'' \<Longrightarrow> in_msg_type m \<noteq> Some ''error'' \<Longrightarrow> fragment m = ''''"
  unfolding fragment_def by (simp_all split: option.splits)

lemma fragment_stream:
  "in_msg_type m = Some ''stream'' \<Longrightarrow> fragment m =
     (case in_content m of None \<Rightarrow> ''''
      | Some c \<Rightarrow> if truthy (ct_text c) then the (ct_text c) else '''')"
  unfolding fragment_def by (simp split: option.splits)

lemma fragment_result:
  "in_msg_type m = Some ''execute_result'' \<or> in_msg_type m = Some ''display_data'' \<Longrightarrow>
   fragment m =
     (case in_content m of None \<Rightarrow> ''''
      | Some c \<Rightarrow> (case ct_data c of None \<Rightarrow> '''' | Some d \<Rightarrow> mime_output d))"
  unfolding fragment_def by (auto split: option.splits)

lemma fragment_error:
  "in_msg_type m = Some ''error'' \<Longrightarrow> fragment m =
     (case in_content m of None \<Rightarrow> ''''
      | Some c \<Rightarrow> (case traceback c of None \<Rightarrow> '''' | Some tb \<Rightarrow> error_output c tb))"
  unfolding fragment_def by (simp split: option.splits)

lemma dispatch_fragment_throws:
  assumes "length (codeBlocks s) \<le> currentBlockIndex s" "fragment m \<noteq> []" "onOutput e"
  shows "dispatch e s pid st m =
           (s\<lparr>messageStatus := (messageStatus s)(pid \<mapsto> st\<lparr>ms_output := ms_output st @ fragment m\<rparr>)\<rparr>,
            Some TypeError)"
proof (cases m rule: msg_type_cases)
  case stream
  with assms(2) have "in_content m \<noteq> None" by (auto simp: fragment_stream split: option.splits)
  with assms stream show ?thesis
    by (auto simp: dispatch_stream finish_def Let_def)
next
  case result
  with assms(2) have "in_content m \<noteq> None" "ct_data (the (in_content m)) \<noteq> None"
    by (auto simp: fragment_result split: option.splits)
  with assms result show ?thesis
    by (auto simp: dispatch_result finish_def Let_def)
next
  case error
  with assms(2) have "in_content m \<noteq> None" "traceback (the (in_content m)) \<noteq> None"
    by (auto simp: fragment_error split: option.splits)
  with assms error show ?thesis
    by (auto simp: dispatch_error finish_def Let_def)
next
  case status
  with assms show ?thesis by (simp add: fragment_silent)
next
  case other
  with assms show ?thesis by (simp add: fragment_silent)
qed

lemma dispatch_codeBlocks_nth:
  "codeBlocks (fst (dispatch e s p st m)) = codeBlocks s
   \<or> (in_msg_type m = Some ''error'' \<and> currentBlockIndex s < length (codeBlocks s)
      \<and> codeBlocks (fst (dispatch e s p st m)) =
          (codeBlocks s)[currentBlockIndex s := (codeBlocks s ! currentBlockIndex s)\<lparr>cb_hasError := Some True\<rparr>])"
proof (cases m rule: msg_type_cases)
  case stream
  then show ?thesis by (simp add: dispatch_stream finish_fields Let_def split: option.splits)
next
  case result
  then show ?thesis by (simp add: dispatch_result finish_fields Let_def split: option.splits)
next
  case error
  then show ?thesis by (simp add: dispatch_error finish_fields Let_def split: option.splits)
next
  case status
  then show ?thesis
    by (simp add: dispatch_status finish_fields on_idle_codeBlocks split: option.splits)
next
  case other
  then show ?thesis by (simp add: dispatch_other finish_fields)
qed

lemma onmessage_codeBlocks:
  "codeBlocks (fst (onmessage e s p)) = codeBlocks s
   \<or> (\<exists>m. p = Parsed m \<and> in_msg_type m = Some ''error'' \<and> truthy (in_parent m)
          \<and> messageStatus s (the (in_parent m)) \<noteq> None
          \<and> currentBlockIndex s < length (codeBlocks s)
          \<and> codeBlocks (fst (onmessage e s p)) =
               (codeBlocks s)[currentBlockIndex s := (codeBlocks s ! currentBlockIndex s)\<lparr>cb_hasError := Some True\<rparr>])"
proof (cases p)
  case (Parsed m)
  show ?thesis
  proof (cases "truthy (in_parent m) \<and> messageStatus s (the (in_parent m)) \<noteq> None")
    case True
    then obtain st where st: "messageStatus s (the (in_parent m)) = Some st" by auto
    with True Parsed dispatch_codeBlocks_nth [of e s "the (in_parent m)" st m] show ?thesis
      by (auto simp: onmessage_def)
  next
    case False
    with Parsed show ?thesis by (auto simp: onmessage_def)
  qed
qed (simp_all add: onmessage_def)

lemma onopen_fields:
  "codeBlocks (fst (onopen e s)) = codeBlocks s"
  "currentBlockIndex (fst (onopen e s)) = currentBlockIndex s"
  "settled (fst (onopen e s)) = settled s"
  "closed (fst (onopen e s)) = closed s"
  "results (fst (onopen e s)) = results s"
  "emitted (fst (onopen e s)) = emitted s"
  by (simp_all add: onopen_def send_current_def Let_def)

lemma reject_fields:
  "codeBlocks (reject msg s) = codeBlocks s"
  "currentBlockIndex (reject msg s) = currentBlockIndex s"
  "closed (reject msg s) = closed s"
  "results (reject msg s) = results s"
  "sent (reject msg s) = sent s"
  "created (reject msg s) = created s"
  "messageStatus (reject msg s) = messageStatus s"
  "emitted (reject msg s) = emitted s"
  "settled (reject msg s) = (if settled s = Pending then Rejected msg else settled s)"
  by (simp_all add: reject_def)

lemma step_length_codeBlocks: "length (codeBlocks (step e s ev)) = length (codeBlocks s)"
proof (cases ev)
  case (OnMessage p)
  with onmessage_codeBlocks [of e s p] show ?thesis by (auto simp: step_def)
qed (simp_all add: step_def onopen_fields onerror_def onclose_def reject_fields)

lemma step_hasError_kept:
  assumes "\<not> error_for s ev i"
  shows "cb_hasError (codeBlocks (step e s ev) ! i) = cb_hasError (codeBlocks s ! i)"
proof (cases ev)
  case (OnMessage p)
  with assms onmessage_codeBlocks [of e s p] show ?thesis
    by (auto simp: step_def error_for_def nth_list_update)
qed (simp_all add: step_def onopen_fields onerror_def onclose_def reject_fields)

lemma step_hasError_mono:
  assumes "i < length (codeBlocks s)"
  shows "cb_hasError (codeBlocks (step e s ev) ! i) = cb_hasError (codeBlocks s ! i)
         \<or> cb_hasError (codeBlocks (step e s ev) ! i) = Some True"
proof (cases ev)
  case (OnMessage p)
  with assms onmessage_codeBlocks [of e s p] show ?thesis
    by (auto simp: step_def nth_list_update)
qed (simp_all add: step_def onopen_fields onerror_def onclose_def reject_fields)

lemma on_idle_cases:
  obtains (throw) "\<not> currentBlockIndex s < length (codeBlocks s)"
  | (more) "Suc (currentBlockIndex s) < length (codeBlocks s)"
  | (last) "currentBlockIndex s < length (codeBlocks s)" "\<not> Suc (currentBlockIndex s) < length (codeBlocks s)"
  by linarith

lemma collect_results_maps:
  "map er_hasError (collect_results s) = map cb_hasError (codeBlocks s)"
  "map er_id (collect_results s) = map cb_id (codeBlocks s)"
  "length (collect_results s) = length (codeBlocks s)"
  by (simp_all add: collect_results_def)

lemma on_idle_resolved:
  assumes "settled (fst (on_idle e s p st)) = Resolved rs" "settled s \<noteq> Resolved rs"
  shows "settled s = Pending \<and> Suc (currentBlockIndex s) = length (codeBlocks s)
         \<and> map er_hasError rs = map cb_hasError (codeBlocks s)
         \<and> map er_id rs = map cb_id (codeBlocks s)"
proof (cases s rule: on_idle_cases)
  case throw
  with assms show ?thesis by (simp add: on_idle_throw)
next
  case more
  with assms show ?thesis by (simp add: on_idle_next)
next
  case last
  with assms show ?thesis
    by (auto simp: on_idle_last Let_def collect_results_maps split: if_splits)
qed

lemma step_resolved:
  assumes "settled (step e s ev) = Resolved rs" "settled s \<noteq> Resolved rs"
  shows "settled s = Pending \<and> Suc (currentBlockIndex s) = length (codeBlocks s)
         \<and> map er_hasError rs = map cb_hasError (codeBlocks s)
         \<and> map er_id rs = map cb_id (codeBlocks s)
         \<and> (\<exists>p. ev = OnMessage p \<and> advancing s p)"
proof (cases ev)
  case (OnMessage p)
  show ?thesis
  proof (cases "advancing s p")
    case True
    then obtain m st where "p = Parsed m" "onmessage e s p = on_idle e s (the (in_parent m)) st"
      by (rule advancingE [where e = e]) blast
    with assms OnMessage True on_idle_resolved [of e s "the (in_parent m)" st rs] show ?thesis
      by (simp add: step_def)
  next
    case False
    with assms OnMessage show ?thesis by (simp add: step_def onmessage_quiet)
  qed
qed (use assms in \<open>auto simp: step_def onopen_fields onerror_def onclose_def reject_fields split: if_splits\<close>)

lemma progress_inv_on_idle:
  assumes "progress_inv s"
  shows "progress_inv (fst (on_idle e s p st))"
proof (cases s rule: on_idle_cases)
  case throw
  with assms show ?thesis unfolding progress_inv_def on_idle_throw [OF throw] by auto
next
  case more
  with assms show ?thesis unfolding progress_inv_def on_idle_next [OF more] by auto
next
  case last
  show ?thesis
  proof (cases "settled s = Pending")
    case True
    with assms last show ?thesis
      unfolding progress_inv_def on_idle_last [OF last] by (auto simp: Let_def)
  next
    case False
    with assms last show ?thesis
      unfolding progress_inv_def on_idle_last [OF last] by (auto simp: Let_def)
  qed
qed

lemma progress_inv_onmessage:
  assumes "progress_inv s"
  shows "progress_inv (fst (onmessage e s p))"
proof (cases "advancing s p")
  case True
  then obtain m st where "p = Parsed m" "onmessage e s p = on_idle e s (the (in_parent m)) st"
    by (rule advancingE [where e = e]) blast
  with assms show ?thesis by (simp add: progress_inv_on_idle)
next
  case False
  from assms show ?thesis unfolding progress_inv_def by (auto simp: onmessage_quiet [OF False])
qed

lemma progress_inv_reject: "progress_inv s \<Longrightarrow> progress_inv (reject msg s)"
  unfolding progress_inv_def by (auto simp: reject_fields)

lemma progress_inv_onopen: "progress_inv s \<Longrightarrow> progress_inv (fst (onopen e s))"
  unfolding progress_inv_def by (auto simp: onopen_fields)

lemma progress_inv_step: "progress_inv s \<Longrightarrow> progress_inv (step e s ev)"
  by (cases ev)
    (simp_all add: step_def progress_inv_onmessage progress_inv_onopen progress_inv_reject
      onerror_def onclose_def)

lemma progress_inv_run: "progress_inv s \<Longrightarrow> progress_inv (run e s evs)"
  unfolding run_def by (induction evs arbitrary: s) (simp_all add: progress_inv_step)

lemma progress_inv_init: "progress_inv (executeNotebookBlocks srv kid blocks)"
  by (simp add: progress_inv_def executeNotebookBlocks_def)

lemma step_frame:
  "map cb_code (codeBlocks (step e s ev)) = map cb_code (codeBlocks s)"
  "map cb_id (codeBlocks (step e s ev)) = map cb_id (codeBlocks s)"
proof -
  show "map cb_code (codeBlocks (step e s ev)) = map cb_code (codeBlocks s)"
  proof (cases ev)
    case (OnMessage p)
    with onmessage_codeBlocks [of e s p] show ?thesis
      by (auto simp: step_def map_cb_code_update)
  qed (simp_all add: step_def onopen_fields onerror_def onclose_def reject_fields)
  show "map cb_id (codeBlocks (step e s ev)) = map cb_id (codeBlocks s)"
  proof (cases ev)
    case (OnMessage p)
    with onmessage_codeBlocks [of e s p] show ?thesis
      by (auto simp: step_def map_cb_id_update)
  qed (simp_all add: step_def onopen_fields onerror_def onclose_def reject_fields)
qed

lemma run_frame:
  "map cb_code (codeBlocks (run e s evs)) = map cb_code (codeBlocks s)"
  "map cb_id (codeBlocks (run e s evs)) = map cb_id (codeBlocks s)"
  "length (codeBlocks (run e s evs)) = length (codeBlocks s)"
  unfolding run_def
  by (induction evs arbitrary: s) (simp_all add: step_frame step_length_codeBlocks)

lemma empty_step:
  assumes "codeBlocks s = []" "messageStatus s = Map.empty"
  shows "step e s ev = (if ev = OnError then reject ''WebSocket error'' s else s)"
proof (cases ev)
  case (OnMessage p)
  with assms show ?thesis
    by (cases p) (simp_all add: step_def onmessage_def)
qed (use assms in \<open>simp_all add: step_def onopen_def onerror_def onclose_def\<close>)

lemma reject_twice: "reject a (reject a s) = reject a s"
  by (simp add: reject_def)

lemma empty_run:
  assumes "codeBlocks s = []" "messageStatus s = Map.empty"
  shows "run e s evs = (if OnError \<in> set evs then reject ''WebSocket error'' s else s)"
  using assms
proof (induction evs arbitrary: s)
  case Nil
  then show ?case by (simp add: run_def)
next
  case (Cons ev evs)
  have "run e s (ev # evs) = run e (step e s ev) evs" by (simp add: run_def)
  also have "step e s ev = (if ev = OnError then reject ''WebSocket error'' s else s)"
    using Cons.prems by (rule empty_step)
  finally show ?case
    using Cons.IH [of s] Cons.IH [of "reject ''WebSocket error'' s"] Cons.prems
    by (auto simp: reject_fields reject_twice)
qed

lemma step_resolved_nth:
  assumes "settled (step e s ev) = Resolved rs" "settled s \<noteq> Resolved rs" "i < length (codeBlocks s)"
  shows "er_hasError (rs ! i) = cb_hasError (codeBlocks s ! i)"
    and "codeBlocks (step e s ev) = codeBlocks s"
proof -
  from step_resolved [OF assms(1,2)]
  have m: "map er_hasError rs = map cb_hasError (codeBlocks s)"
    and adv: "\<exists>p. ev = OnMessage p \<and> advancing s p" by auto
  from m have "length rs = length (codeBlocks s)" by (metis length_map)
  with m assms(3) show "er_hasError (rs ! i) = cb_hasError (codeBlocks s ! i)"
    by (metis nth_map)
  from adv obtain p where p: "ev = OnMessage p" "advancing s p" by auto
  then obtain m' st where "p = Parsed m'" "onmessage e s p = on_idle e s (the (in_parent m')) st"
    by (rule_tac advancingE [where e = e and s = s and p = p]) blast+
  with p show "codeBlocks (step e s ev) = codeBlocks s"
    by (simp add: step_def on_idle_codeBlocks)
qed

lemma run_hasError_kept:
  assumes "error_free_for e i s evs" "i < length (codeBlocks s)"
    and "\<forall>rs. settled s = Resolved rs \<longrightarrow> er_hasError (rs ! i) = cb_hasError (codeBlocks s ! i)"
  shows "cb_hasError (codeBlocks (run e s evs) ! i) = cb_hasError (codeBlocks s ! i)
         \<and> (\<forall>rs. settled (run e s evs) = Resolved rs \<longrightarrow>
                er_hasError (rs ! i) = cb_hasError (codeBlocks s ! i))"
  using assms
proof (induction evs arbitrary: s)
  case Nil
  then show ?case by (simp add: run_def)
next
  case (Cons ev evs)
  let ?s' = "step e s ev"
  from Cons.prems(1) have nf: "\<not> error_for s ev i" and ef: "error_free_for e i ?s' evs" by simp_all
  have kept: "cb_hasError (codeBlocks ?s' ! i) = cb_hasError (codeBlocks s ! i)"
    using nf by (rule step_hasError_kept)
  have len: "i < length (codeBlocks ?s')" using Cons.prems(2) by (simp add: step_length_codeBlocks)
  have res: "\<forall>rs. settled ?s' = Resolved rs \<longrightarrow> er_hasError (rs ! i) = cb_hasError (codeBlocks ?s' ! i)"
  proof (intro allI impI)
    fix rs assume r: "settled ?s' = Resolved rs"
    show "er_hasError (rs ! i) = cb_hasError (codeBlocks ?s' ! i)"
    proof (cases "settled s = Resolved rs")
      case True
      with Cons.prems(3) kept show ?thesis by simp
    next
      case False
      from step_resolved_nth(1) [OF r False Cons.prems(2)] kept show ?thesis by simp
    qed
  qed
  from Cons.IH [OF ef len res] kept show ?case by (simp add: run_def)
qed

lemma run_hasError_mono:
  assumes "i < length (codeBlocks s)"
    and "\<forall>rs. settled s = Resolved rs \<longrightarrow>
           er_hasError (rs ! i) = h \<or> er_hasError (rs ! i) = Some True"
    and "cb_hasError (codeBlocks s ! i) = h \<or> cb_hasError (codeBlocks s ! i) = Some True"
  shows "(cb_hasError (codeBlocks (run e s evs) ! i) = h
            \<or> cb_hasError (codeBlocks (run e s evs) ! i) = Some True)
         \<and> (\<forall>rs. settled (run e s evs) = Resolved rs \<longrightarrow>
                er_hasError (rs ! i) = h \<or> er_hasError (rs ! i) = Some True)"
  using assms
proof (induction evs arbitrary: s)
  case Nil
  then show ?case by (simp add: run_def)
next
  case (Cons ev evs)
  let ?s' = "step e s ev"
  have len: "i < length (codeBlocks ?s')" using Cons.prems(1) by (simp add: step_length_codeBlocks)
  have mono: "cb_hasError (codeBlocks ?s' ! i) = h \<or> cb_hasError (codeBlocks ?s' ! i) = Some True"
    using step_hasError_mono [OF Cons.prems(1), of e ev] Cons.prems(3) by auto
  have res: "\<forall>rs. settled ?s' = Resolved rs \<longrightarrow>
           er_hasError (rs ! i) = h \<or> er_hasError (rs ! i) = Some True"
  proof (intro allI impI)
    fix rs assume r: "settled ?s' = Resolved rs"
    show "er_hasError (rs ! i) = h \<or> er_hasError (rs ! i) = Some True"
    proof (cases "settled s = Resolved rs")
      case True
      with Cons.prems(2) show ?thesis by simp
    next
      case False
      from step_resolved_nth(1) [OF r False Cons.prems(1)] Cons.prems(3) show ?thesis by auto
    qed
  qed
  from Cons.IH [OF len res mono] show ?case by (simp add: run_def)
qed

lemma finish_throws:
  "snd (finish e s p st out) =
     (if out \<noteq> [] \<and> onOutput e \<and> \<not> currentBlockIndex s < length (codeBlocks s)
      then Some TypeError else None)"
  by (simp add: finish_def)

lemma on_idle_advance:
  assumes "currentBlockIndex s < length (codeBlocks s)"
  shows "currentBlockIndex (fst (on_idle e s p st)) = Suc (currentBlockIndex s)"
    and "results (fst (on_idle e s p st)) =
           (results s)(cb_id (codeBlocks s ! currentBlockIndex s) \<mapsto> ms_output st)"
    and "snd (on_idle e s p st) = None"
    and "settled s = Pending \<Longrightarrow> settled (fst (on_idle e s p st)) \<noteq> Rejected msg"
proof -
  consider (more) "Suc (currentBlockIndex s) < length (codeBlocks s)"
    | (last) "\<not> Suc (currentBlockIndex s) < length (codeBlocks s)" by blast
  then have "currentBlockIndex (fst (on_idle e s p st)) = Suc (currentBlockIndex s)
    \<and> results (fst (on_idle e s p st)) =
           (results s)(cb_id (codeBlocks s ! currentBlockIndex s) \<mapsto> ms_output st)
    \<and> snd (on_idle e s p st) = None
    \<and> (settled s = Pending \<longrightarrow> settled (fst (on_idle e s p st)) \<noteq> Rejected msg)"
  proof cases
    case more
    then show ?thesis by (simp add: on_idle_next)
  next
    case last
    with assms show ?thesis by (simp add: on_idle_last Let_def)
  qed
  then show "currentBlockIndex (fst (on_idle e s p st)) = Suc (currentBlockIndex s)"
    and "results (fst (on_idle e s p st)) =
           (results s)(cb_id (codeBlocks s ! currentBlockIndex s) \<mapsto> ms_output st)"
    and "snd (on_idle e s p st) = None"
    and "settled s = Pending \<Longrightarrow> settled (fst (on_idle e s p st)) \<noteq> Rejected msg"
    by simp_all
qed

lemma onmessage_error:
  assumes "currentBlockIndex s < length (codeBlocks s)"
    and "messageStatus s pid = Some st" "pid \<noteq> []"
    and "in_msg_type m = Some ''error''" "in_parent m = Some pid"
    and "in_content m = Some c" "traceback c = Some tb"
  shows "onmessage e s (Parsed m) =
           finish e
             (s\<lparr>messageStatus := (messageStatus s)(pid \<mapsto> st\<lparr>ms_output := ms_output st @ error_output c tb\<rparr>),
                codeBlocks := (codeBlocks s)[currentBlockIndex s :=
                   (codeBlocks s ! currentBlockIndex s)\<lparr>cb_hasError := Some True\<rparr>]\<rparr>)
             pid (st\<lparr>ms_output := ms_output st @ error_output c tb\<rparr>) (error_output c tb)"
  using assms
  by (simp add: onmessage_def truthy_def dispatch_error fragment_error Let_def)

lemma onmessage_idle:
  assumes "messageStatus s pid = Some st" "pid \<noteq> []" "\<not> ms_done st"
  shows "onmessage e s (Parsed (idle_for pid)) = on_idle e s pid st"
  using assms by (simp add: onmessage_def truthy_def dispatch_idle)

lemma error_output_nonempty: "error_output c tb \<noteq> []"
  by (simp add: error_output_def)

lemma seq_inv_sending_step:
  assumes inv: "seq_inv e s" and ev: "ev \<noteq> OnOpen" and ch: "sent (step e s ev) \<noteq> sent s"
  shows "\<exists>m c. ev = OnMessage (Parsed m) \<and> in_msg_type m = Some ''status''
           \<and> in_content m = Some c \<and> execution_state c = Some ''idle''
           \<and> in_parent m = Some (msg_id (last (sent s)))
           \<and> length (sent s) = Suc (currentBlockIndex s)
           \<and> currentBlockIndex (step e s ev) = Suc (currentBlockIndex s)
           \<and> sent (step e s ev) = sent s @ [createExecuteRequestMessage e (length (sent s))
                  (cb_code (codeBlocks s ! Suc (currentBlockIndex s)))]"
proof (cases ev)
  case (OnMessage p)
  have adv: "advancing s p"
  proof (rule ccontr)
    assume "\<not> advancing s p"
    with ch OnMessage show False by (simp add: step_def onmessage_quiet)
  qed
  then obtain m st c where m: "p = Parsed m" "truthy (in_parent m)" "in_msg_type m = Some ''status''"
    "messageStatus s (the (in_parent m)) = Some st" "\<not> ms_done st"
    "in_content m = Some c" "execution_state c = Some ''idle''"
    "onmessage e s p = on_idle e s (the (in_parent m)) st"
    by (rule advancingE [where e = e]) blast
  from inv m(4,5) have cur: "currentBlockIndex s < length (codeBlocks s)"
    and pid: "the (in_parent m) = msg_id (last (sent s))"
    unfolding seq_inv_def by auto
  from inv cur have len: "length (sent s) = Suc (currentBlockIndex s)" and cr: "created s = length (sent s)"
    unfolding seq_inv_def by simp_all
  from m(2) pid have par: "in_parent m = Some (msg_id (last (sent s)))"
    by (cases "in_parent m") (simp_all add: truthy_def)
  have more: "Suc (currentBlockIndex s) < length (codeBlocks s)"
  proof (rule ccontr)
    assume n: "\<not> Suc (currentBlockIndex s) < length (codeBlocks s)"
    from ch OnMessage m(8) show False
      by (cases "settled s = Pending") (simp_all add: step_def on_idle_last [OF cur n] Let_def)
  qed
  from OnMessage m(8) cr have
    "currentBlockIndex (step e s ev) = Suc (currentBlockIndex s)"
    "sent (step e s ev) = sent s @ [createExecuteRequestMessage e (length (sent s))
                  (cb_code (codeBlocks s ! Suc (currentBlockIndex s)))]"
    by (simp_all add: step_def on_idle_next [OF more])
  with OnMessage m par len show ?thesis by blast
next
  case OnOpen
  with ev show ?thesis by simp
next
  case OnError
  with ch show ?thesis by (simp add: step_def onerror_def reject_fields)
next
  case OnClose
  with ch show ?thesis by (auto simp: step_def onclose_def reject_fields split: if_splits)
qed

section \<open>A kernel that answers every request\<close>

lemma awaiting_last_id:
  assumes "awaiting e blocks k s"
  shows "created s = Suc k"
  using assms unfolding awaiting_def seq_inv_def by auto

lemma awaiting_next:
  assumes a: "awaiting e blocks k s" and more: "Suc k < length blocks"
    and fresh: "nonce e (Suc k) \<noteq> nonce e k"
  shows "awaiting e blocks (Suc k) (step e s (OnMessage (Parsed (idle_for (''msg-'' @ nonce e k)))))"
proof -
  let ?p = "''msg-'' @ nonce e k"
  let ?st = "\<lparr>ms_done = False, ms_output = ''''\<rparr>"
  from a have ms: "messageStatus s ?p = Some ?st" and inv: "seq_inv e s"
    and idx: "currentBlockIndex s = k" and cb: "codeBlocks s = blocks" and pe: "settled s = Pending"
    and res: "\<forall>i. results s i = None \<or> results s i = Some ''''"
    unfolding awaiting_def by simp_all
  have om: "onmessage e s (Parsed (idle_for ?p)) = on_idle e s ?p ?st"
    by (rule onmessage_idle [OF ms]) simp_all
  have more': "Suc (currentBlockIndex s) < length (codeBlocks s)" using more idx cb by simp
  have st: "step e s (OnMessage (Parsed (idle_for ?p))) = fst (on_idle e s ?p ?st)"
    using om by (simp add: step_def)
  have inv': "seq_inv e (fst (on_idle e s ?p ?st))"
    using seq_inv_step [OF inv, of "OnMessage (Parsed (idle_for ?p))"] unfolding st by simp
  have cr: "created s = Suc k" using a by (rule awaiting_last_id)
  show ?thesis
    unfolding awaiting_def st
    using inv' more fresh res
    by (simp add: on_idle_next [OF more'] idx cb cr pe createExecuteRequestMessage_fields)
qed

lemma collect_results_blank:
  assumes "\<forall>i. results s i = None \<or> results s i = Some []"
  shows "collect_results s =
           map (\<lambda>b. \<lparr>er_id = cb_id b, er_hasError = cb_hasError b, er_output = []\<rparr>) (codeBlocks s)"
  unfolding collect_results_def
proof (rule map_cong [OF refl])
  fix b
  from assms have "results s (cb_id b) = None \<or> results s (cb_id b) = Some []" by blast
  then show "\<lparr>er_id = cb_id b, er_hasError = cb_hasError b,
              er_output = (case results s (cb_id b) of None \<Rightarrow> [] | Some out \<Rightarrow> out)\<rparr>
             = \<lparr>er_id = cb_id b, er_hasError = cb_hasError b, er_output = []\<rparr>"
    by auto
qed

lemma awaiting_last:
  assumes a: "awaiting e blocks k s" and last: "Suc k = length blocks"
  shows "settled (step e s (OnMessage (Parsed (idle_for (''msg-'' @ nonce e k)))))
           = Resolved (map (\<lambda>b. \<lparr>er_id = cb_id b, er_hasError = cb_hasError b, er_output = ''''\<rparr>) blocks)"
    and "closed (step e s (OnMessage (Parsed (idle_for (''msg-'' @ nonce e k)))))"
    and "currentBlockIndex (step e s (OnMessage (Parsed (idle_for (''msg-'' @ nonce e k))))) = length blocks"
proof -
  let ?p = "''msg-'' @ nonce e k"
  let ?st = "\<lparr>ms_done = False, ms_output = ''''\<rparr>"
  from a have ms: "messageStatus s ?p = Some ?st"
    and idx: "currentBlockIndex s = k" and cb: "codeBlocks s = blocks" and pe: "settled s = Pending"
    and res: "\<forall>i. results s i = None \<or> results s i = Some ''''"
    unfolding awaiting_def by simp_all
  have om: "onmessage e s (Parsed (idle_for ?p)) = on_idle e s ?p ?st"
    by (rule onmessage_idle [OF ms]) simp_all
  have st: "step e s (OnMessage (Parsed (idle_for ?p))) = fst (on_idle e s ?p ?st)"
    using om by (simp add: step_def)
  have cur: "currentBlockIndex s < length (codeBlocks s)" using last idx cb by simp
  have nomore: "\<not> Suc (currentBlockIndex s) < length (codeBlocks s)" using last idx cb by simp
  let ?s2 = "s\<lparr>messageStatus := (messageStatus s)(?p \<mapsto> ?st\<lparr>ms_done := True\<rparr>),
                 results := (results s)(cb_id (codeBlocks s ! currentBlockIndex s) \<mapsto> ms_output ?st),
                 currentBlockIndex := Suc (currentBlockIndex s),
                 closed := True\<rparr>"
  have "collect_results ?s2 =
          map (\<lambda>b. \<lparr>er_id = cb_id b, er_hasError = cb_hasError b, er_output = []\<rparr>) (codeBlocks ?s2)"
    by (rule collect_results_blank) (use res in auto)
  then show "settled (step e s (OnMessage (Parsed (idle_for ?p))))
           = Resolved (map (\<lambda>b. \<lparr>er_id = cb_id b, er_hasError = cb_hasError b, er_output = []\<rparr>) blocks)"
    unfolding st on_idle_last [OF cur nomore]
    by (simp add: Let_def pe cb)
  show "closed (step e s (OnMessage (Parsed (idle_for ?p))))"
    unfolding st on_idle_last [OF cur nomore] by (simp add: Let_def pe)
  show "currentBlockIndex (step e s (OnMessage (Parsed (idle_for ?p)))) = length blocks"
    unfolding st on_idle_last [OF cur nomore] using last idx by (simp add: Let_def pe)
qed

lemma answers_Cons:
  "k < n \<Longrightarrow> answers e k n = OnMessage (Parsed (idle_for (''msg-'' @ nonce e k))) # answers e (Suc k) n"
  by (simp add: answers_def upt_conv_Cons)

lemma answers_Nil: "answers e n n = []"
  by (simp add: answers_def)

lemma awaiting_run:
  assumes "awaiting e blocks k s" "\<forall>j. nonce e (Suc j) \<noteq> nonce e j"
  shows "settled (run e s (answers e k (length blocks)))
           = Resolved (map (\<lambda>b. \<lparr>er_id = cb_id b, er_hasError = cb_hasError b, er_output = ''''\<rparr>) blocks)
         \<and> closed (run e s (answers e k (length blocks)))
         \<and> currentBlockIndex (run e s (answers e k (length blocks))) = length blocks"
  using assms
proof (induction "length blocks - k" arbitrary: k s)
  case 0
  then show ?case unfolding awaiting_def by simp
next
  case (Suc d)
  let ?ev = "OnMessage (Parsed (idle_for (''msg-'' @ nonce e k)))"
  from Suc.prems(1) have lt: "k < length blocks" unfolding awaiting_def by simp
  have run: "run e s (answers e k (length blocks)) = run e (step e s ?ev) (answers e (Suc k) (length blocks))"
    by (simp add: answers_Cons [OF lt] run_def)
  show ?case
  proof (cases "Suc k < length blocks")
    case True
    have d: "d = length blocks - Suc k" using Suc.hyps(2) by simp
    have aw: "awaiting e blocks (Suc k) (step e s ?ev)"
      by (rule awaiting_next [OF Suc.prems(1) True]) (use Suc.prems(2) in simp)
    from Suc.hyps(1) [OF d aw Suc.prems(2)] show ?thesis unfolding run .
  next
    case False
    with lt have last: "Suc k = length blocks" by simp
    have "answers e (Suc k) (length blocks) = []" unfolding last by (rule answers_Nil)
    then have "run e s (answers e k (length blocks)) = step e s ?ev"
      unfolding run by (simp add: run_def)
    with awaiting_last [OF Suc.prems(1) last] show ?thesis by simp
  qed
qed

lemma awaiting_open:
  assumes "blocks \<noteq> []"
  shows "awaiting e blocks 0 (step e (executeNotebookBlocks srv kid blocks) OnOpen)"
  unfolding awaiting_def
  using seq_inv_open [OF assms, of e srv kid] assms
  by (simp add: step_def onopen_def send_current_def executeNotebookBlocks_def
      createExecuteRequestMessage_fields Let_def)

lemma batch_completes:
  assumes "blocks \<noteq> []" "\<forall>j. nonce e (Suc j) \<noteq> nonce e j"
    and "s = run e (executeNotebookBlocks srv kid blocks) (OnOpen # answers e 0 (length blocks))"
  shows "settled s = Resolved (map (\<lambda>b. \<lparr>er_id = cb_id b, er_hasError = cb_hasError b, er_output = ''''\<rparr>) blocks)
         \<and> length (sent s) = length blocks \<and> closed s \<and> currentBlockIndex s = length blocks"
proof -
  let ?s1 = "step e (executeNotebookBlocks srv kid blocks) OnOpen"
  have s: "s = run e ?s1 (answers e 0 (length blocks))" unfolding assms(3) by (simp add: run_def)
  note fin = awaiting_run [OF awaiting_open [OF assms(1)] assms(2), of srv kid, folded s]
  have "OnOpen \<notin> set (answers e 0 (length blocks))" by (auto simp: answers_def)
  then have inv: "seq_inv e s" unfolding s by (rule seq_inv_run [OF seq_inv_open [OF assms(1)]])
  have "length (codeBlocks s) = length blocks"
    unfolding assms(3) by (simp add: run_frame executeNotebookBlocks_def)
  with inv fin have "length (sent s) = length blocks" unfolding seq_inv_def by simp
  with fin show ?thesis by simp
qed

lemma seq_inv_last_id:
  assumes "seq_inv e s" "currentBlockIndex s < length (codeBlocks s)"
  shows "msg_id (last (sent s)) = ''msg-'' @ nonce e (currentBlockIndex s)"
    and "created s = Suc (currentBlockIndex s)"
proof -
  from assms have len: "length (sent s) = Suc (currentBlockIndex s)"
    and ids: "map msg_id (sent s) = map (\<lambda>k. ''msg-'' @ nonce e k) [0..<length (sent s)]"
    and cr: "created s = length (sent s)"
    unfolding seq_inv_def by simp_all
  from len have ne: "sent s \<noteq> []" by auto
  have "msg_id (last (sent s)) = last (map msg_id (sent s))" using ne by (simp add: last_map)
  also have "\<dots> = last (map (\<lambda>k. ''msg-'' @ nonce e k) [0..<Suc (currentBlockIndex s)])"
    using ids len by simp
  also have "\<dots> = ''msg-'' @ nonce e (currentBlockIndex s)" by simp
  finally show "msg_id (last (sent s)) = ''msg-'' @ nonce e (currentBlockIndex s)" .
  from cr len show "created s = Suc (currentBlockIndex s)" by simp
qed

lemma seq_inv_pending_id:
  assumes "seq_inv e s" "messageStatus s pid = Some st" "\<not> ms_done st"
  shows "pid = ''msg-'' @ nonce e (currentBlockIndex s)"
proof -
  from assms have "currentBlockIndex s < length (codeBlocks s)" "pid = msg_id (last (sent s))"
    unfolding seq_inv_def by auto
  with seq_inv_last_id(1) [OF assms(1)] show ?thesis by simp
qed

lemma waiting_run:
  assumes "seq_inv e s" "currentBlockIndex s = k" "k < length (codeBlocks s)"
    and "settled s = Pending"
    and "messageStatus s (''msg-'' @ nonce e k) = Some st" "\<not> ms_done st"
    and "\<forall>j. nonce e (Suc j) \<noteq> nonce e j"
  shows "\<exists>rs. settled (run e s (answers e k (length (codeBlocks s)))) = Resolved rs"
  using assms
proof (induction "length (codeBlocks s) - k" arbitrary: k s st)
  case 0
  then show ?case by simp
next
  case (Suc d)
  let ?p = "''msg-'' @ nonce e k"
  let ?ev = "OnMessage (Parsed (idle_for ?p))"
  let ?n = "length (codeBlocks s)"
  have om: "onmessage e s (Parsed (idle_for ?p)) = on_idle e s ?p st"
    by (rule onmessage_idle [OF Suc.prems(5) _ Suc.prems(6)]) simp
  have st: "step e s ?ev = fst (on_idle e s ?p st)" using om by (simp add: step_def)
  have cb: "codeBlocks (step e s ?ev) = codeBlocks s" unfolding st by (rule on_idle_codeBlocks)
  have run: "run e s (answers e k ?n) = run e (step e s ?ev) (answers e (Suc k) ?n)"
    by (simp add: answers_Cons [OF Suc.prems(3)] run_def)
  have cur: "currentBlockIndex s < ?n" using Suc.prems(2,3) by simp
  show ?case
  proof (cases "Suc k < ?n")
    case True
    then have more: "Suc (currentBlockIndex s) < ?n" using Suc.prems(2) by simp
    have d: "d = length (codeBlocks (step e s ?ev)) - Suc k" using Suc.hyps(2) cb by simp
    have inv': "seq_inv e (step e s ?ev)" using Suc.prems(1) by (simp add: seq_inv_step)
    have cr: "created s = Suc k" using seq_inv_last_id(2) [OF Suc.prems(1) cur] Suc.prems(2) by simp
    have fresh: "nonce e (Suc k) \<noteq> nonce e k" using Suc.prems(7) by simp
    have idx': "currentBlockIndex (step e s ?ev) = Suc k"
      unfolding st on_idle_next [OF more] using Suc.prems(2) by simp
    have lt': "Suc k < length (codeBlocks (step e s ?ev))" using True cb by simp
    have pe': "settled (step e s ?ev) = Pending"
      unfolding st on_idle_next [OF more] using Suc.prems(4) by simp
    have ms': "messageStatus (step e s ?ev) (''msg-'' @ nonce e (Suc k))
                 = Some \<lparr>ms_done = False, ms_output = ''''\<rparr>"
      unfolding st on_idle_next [OF more] using fresh cr
      by (simp add: createExecuteRequestMessage_fields)
    have "\<exists>rs. settled (run e (step e s ?ev) (answers e (Suc k) (length (codeBlocks (step e s ?ev)))))
            = Resolved rs"
      by (rule Suc.hyps(1) [OF d inv' idx' lt' pe' ms' _ Suc.prems(7)]) simp
    then show ?thesis unfolding run cb .
  next
    case False
    with Suc.prems(2,3) have nomore: "\<not> Suc (currentBlockIndex s) < ?n" by simp
    from False Suc.prems(3) have last: "Suc k = ?n" by simp
    have "answers e (Suc k) ?n = []" unfolding last [symmetric] by (rule answers_Nil)
    then have r: "run e s (answers e k ?n) = step e s ?ev" unfolding run by (simp add: run_def)
    show ?thesis
      unfolding r st on_idle_last [OF cur nomore] using Suc.prems(4) by (simp add: Let_def)
  qed
qed

lemma run_snoc: "run e s (evs @ [ev]) = step e (run e s evs) ev"
  by (simp add: run_def)

section \<open>One request at a time\<close>

text \<open>
  C1. For a batch that is not empty, after the open signal and any events that follow it:
  the number of execute requests sent is the number of blocks completed plus one, and never
  more than the number of blocks; request \<open>k\<close> carries the code of block \<open>k\<close> and the
  \<open>k\<close>-th generated id; once the promise is resolved exactly as many requests were sent as
  there are blocks; at most one recorded request is not done, and it is the last one sent;
  and an event sends a request only when it is an idle status whose parent is the id of the
  last request sent, which is then the request of the current block: the request that
  follows is for the next block. When the kernel answers every request with an idle status
  (and two requests in a row never get the same id), the run sends exactly as many requests
  as there are blocks, closes the session and resolves the promise.
\<close>

theorem requests_sent_one_at_a_time:
  assumes "blocks \<noteq> []" "OnOpen \<notin> set evs"
    and "s = run e (executeNotebookBlocks srv kid blocks) (OnOpen # evs)"
  shows "length (sent s) = min (Suc (currentBlockIndex s)) (length blocks)
         \<and> map code (sent s) = take (length (sent s)) (map cb_code blocks)
         \<and> map msg_id (sent s) = map (\<lambda>k. ''msg-'' @ nonce e k) [0..<length (sent s)]
         \<and> ((\<exists>rs. settled s = Resolved rs) \<longrightarrow> length (sent s) = length blocks)
         \<and> in_flight s \<subseteq> {msg_id (last (sent s))}
         \<and> (\<forall>ev. ev \<noteq> OnOpen \<and> sent (step e s ev) \<noteq> sent s \<longrightarrow>
              (\<exists>m c. ev = OnMessage (Parsed m) \<and> in_msg_type m = Some ''status''
                 \<and> in_content m = Some c \<and> execution_state c = Some ''idle''
                 \<and> in_parent m = Some (msg_id (last (sent s)))
                 \<and> length (sent s) = Suc (currentBlockIndex s)
                 \<and> currentBlockIndex (step e s ev) = Suc (currentBlockIndex s)
                 \<and> sent (step e s ev) = sent s @ [createExecuteRequestMessage e (length (sent s))
                      (cb_code (blocks ! Suc (currentBlockIndex s)))]))
         \<and> ((\<forall>j. nonce e (Suc j) \<noteq> nonce e j) \<longrightarrow>
              length (sent (run e (executeNotebookBlocks srv kid blocks)
                             (OnOpen # answers e 0 (length blocks)))) = length blocks
              \<and> closed (run e (executeNotebookBlocks srv kid blocks)
                             (OnOpen # answers e 0 (length blocks)))
              \<and> (\<exists>rs. settled (run e (executeNotebookBlocks srv kid blocks)
                             (OnOpen # answers e 0 (length blocks))) = Resolved rs))"
proof -
  let ?s0 = "executeNotebookBlocks srv kid blocks"
  have s: "s = run e (step e ?s0 OnOpen) evs" unfolding assms(3) by (simp add: run_def)
  have inv: "seq_inv e s"
    unfolding s by (rule seq_inv_run [OF seq_inv_open [OF assms(1)] assms(2)])
  have codes: "map cb_code (codeBlocks s) = map cb_code blocks"
    and len: "length (codeBlocks s) = length blocks"
    unfolding assms(3) by (simp_all add: run_frame executeNotebookBlocks_def)
  have c1: "length (sent s) = min (Suc (currentBlockIndex s)) (length blocks)"
    using inv len unfolding seq_inv_def by simp
  have c2: "map code (sent s) = take (length (sent s)) (map cb_code blocks)"
    using inv codes unfolding seq_inv_def by simp
  have c3: "map msg_id (sent s) = map (\<lambda>k. ''msg-'' @ nonce e k) [0..<length (sent s)]"
    using inv unfolding seq_inv_def by simp
  have c4: "(\<exists>rs. settled s = Resolved rs) \<longrightarrow> length (sent s) = length blocks"
    using inv len unfolding seq_inv_def by auto
  have c5: "in_flight s \<subseteq> {msg_id (last (sent s))}"
    using inv unfolding seq_inv_def in_flight_def by auto
  have c6: "\<forall>ev. ev \<noteq> OnOpen \<and> sent (step e s ev) \<noteq> sent s \<longrightarrow>
              (\<exists>m c. ev = OnMessage (Parsed m) \<and> in_msg_type m = Some ''status''
                 \<and> in_content m = Some c \<and> execution_state c = Some ''idle''
                 \<and> in_parent m = Some (msg_id (last (sent s)))
                 \<and> length (sent s) = Suc (currentBlockIndex s)
                 \<and> currentBlockIndex (step e s ev) = Suc (currentBlockIndex s)
                 \<and> sent (step e s ev) = sent s @ [createExecuteRequestMessage e (length (sent s))
                      (cb_code (blocks ! Suc (currentBlockIndex s)))])"
  proof (intro allI impI)
    fix ev assume a: "ev \<noteq> OnOpen \<and> sent (step e s ev) \<noteq> sent s"
    then obtain m c where mc: "ev = OnMessage (Parsed m)" "in_msg_type m = Some ''status''"
      "in_content m = Some c" "execution_state c = Some ''idle''"
      "in_parent m = Some (msg_id (last (sent s)))"
      "length (sent s) = Suc (currentBlockIndex s)"
      "currentBlockIndex (step e s ev) = Suc (currentBlockIndex s)"
      "sent (step e s ev) = sent s @ [createExecuteRequestMessage e (length (sent s))
                  (cb_code (codeBlocks s ! Suc (currentBlockIndex s)))]"
      using seq_inv_sending_step [OF inv, of ev] by blast
    have "sent (step e s ev) \<noteq> sent s" using a by simp
    have lt: "Suc (currentBlockIndex s) < length blocks"
    proof (rule ccontr)
      assume "\<not> Suc (currentBlockIndex s) < length blocks"
      moreover have "seq_inv e (step e s ev)" using inv a by (simp add: seq_inv_step)
      moreover have "length (codeBlocks (step e s ev)) = length blocks"
        using len by (simp add: step_length_codeBlocks)
      ultimately show False using mc(6,7,8) unfolding seq_inv_def by simp
    qed
    have "cb_code (codeBlocks s ! Suc (currentBlockIndex s)) = cb_code (blocks ! Suc (currentBlockIndex s))"
      using codes lt len by (metis nth_map)
    with mc show "\<exists>m c. ev = OnMessage (Parsed m) \<and> in_msg_type m = Some ''status''
                 \<and> in_content m = Some c \<and> execution_state c = Some ''idle''
                 \<and> in_parent m = Some (msg_id (last (sent s)))
                 \<and> length (sent s) = Suc (currentBlockIndex s)
                 \<and> currentBlockIndex (step e s ev) = Suc (currentBlockIndex s)
                 \<and> sent (step e s ev) = sent s @ [createExecuteRequestMessage e (length (sent s))
                      (cb_code (blocks ! Suc (currentBlockIndex s)))]"
      by simp
  qed
  have c7: "(\<forall>j. nonce e (Suc j) \<noteq> nonce e j) \<longrightarrow>
              length (sent (run e ?s0 (OnOpen # answers e 0 (length blocks)))) = length blocks
              \<and> closed (run e ?s0 (OnOpen # answers e 0 (length blocks)))
              \<and> (\<exists>rs. settled (run e ?s0 (OnOpen # answers e 0 (length blocks))) = Resolved rs)"
    using batch_completes [OF assms(1) _ refl, of e srv kid] by blast
  from c1 c2 c3 c4 c5 c6 c7 show ?thesis by blast
qed

theorem requests_sent_one_at_a_time_witness:
  "[demo_block ''c1'' None, demo_block ''c2'' None] \<noteq> []
   \<and> OnOpen \<notin> set [OnMessage (Parsed (idle_for ''msg-0-0.5'')), OnMessage (Parsed (idle_for ''msg-1-0.5''))]
   \<and> map msg_id (sent (run demo_env
          (executeNotebookBlocks demo_server ''k'' [demo_block ''c1'' None, demo_block ''c2'' None])
          (OnOpen # [OnMessage (Parsed (idle_for ''msg-0-0.5'')), OnMessage (Parsed (idle_for ''msg-1-0.5''))])))
       = [''msg-0-0.5'', ''msg-1-0.5'']
   \<and> length (sent (run demo_env
          (executeNotebookBlocks demo_server ''k'' [demo_block ''c1'' None, demo_block ''c2'' None])
          (OnOpen # [OnMessage (Parsed (idle_for ''msg-0-0.5'')), OnMessage (Parsed (idle_for ''msg-1-0.5''))])))
       = length [demo_block ''c1'' None, demo_block ''c2'' None]"
proof -
  let ?blocks = "[demo_block ''c1'' None, demo_block ''c2'' None]"
  let ?evs = "[OnMessage (Parsed (idle_for ''msg-0-0.5'')), OnMessage (Parsed (idle_for ''msg-1-0.5''))]"
  let ?s = "run demo_env (executeNotebookBlocks demo_server ''k'' ?blocks) (OnOpen # ?evs)"
  have h1: "?blocks \<noteq> []" by simp
  have h2: "OnOpen \<notin> set ?evs" by simp
  have "settled ?s = Resolved [\<lparr>er_id = ''c1'', er_hasError = None, er_output = ''''\<rparr>,
                               \<lparr>er_id = ''c2'', er_hasError = None, er_output = ''''\<rparr>]"
    by code_simp
  then have r: "\<exists>rs. settled ?s = Resolved rs" by blast
  have ids: "map (\<lambda>k. ''msg-'' @ nonce demo_env k) [0..<length ?blocks] = [''msg-0-0.5'', ''msg-1-0.5'']"
    by code_simp
  from requests_sent_one_at_a_time [OF h1 h2 refl, of demo_env demo_server "''k''"] r
  have "length (sent ?s) = length ?blocks"
    and "map msg_id (sent ?s) = map (\<lambda>k. ''msg-'' @ nonce demo_env k) [0..<length (sent ?s)]"
    by blast+
  with ids h1 h2 show ?thesis by simp
qed

section \<open>Accumulated output\<close>

text \<open>
  C2, as the code has it. For a batch of one block, a stream message with text \<open>a\<close>, an
  \<open>execute_result\<close> with \<open>text/plain\<close> \<open>b\<close> and an idle status, all three with the block's
  request id as parent, resolve the promise with that block's result: its output is
  \<open>a\<close> followed by \<open>b\<close> and a newline, and its \<open>hasError\<close> is the value the block was passed
  in with.
\<close>

theorem single_cell_output_accumulates:
  "settled (run e (executeNotebookBlocks srv kid [b])
     [OnOpen,
      OnMessage (Parsed (inbound ''stream'' (''msg-'' @ nonce e 0) (no_content\<lparr>ct_text := Some ''a''\<rparr>))),
      OnMessage (Parsed (inbound ''execute_result'' (''msg-'' @ nonce e 0)
         (no_content\<lparr>ct_data := Some \<lparr>text_plain = Some ''b'', text_html = None, image_png = None\<rparr>\<rparr>))),
      OnMessage (Parsed (idle_for (''msg-'' @ nonce e 0)))])
   = Resolved [\<lparr>er_id = cb_id b, er_hasError = cb_hasError b, er_output = ''ab'' @ [CHR 0x0A]\<rparr>]"
  by (simp add: run_def step_def executeNotebookBlocks_def onopen_def send_current_def
      createExecuteRequestMessage_fields onmessage_def truthy_def dispatch_stream dispatch_result
      dispatch_idle fragment_def mime_output_def finish_def on_idle_last resolve_def
      collect_results_def Let_def)

text \<open>A block passed in with \<open>hasError\<close> true is reported with \<open>hasError\<close> true, not false.\<close>

theorem single_cell_hasError_counterexample:
  "settled (run demo_env (executeNotebookBlocks demo_server ''k'' [demo_block ''c1'' (Some True)])
     [OnOpen,
      OnMessage (Parsed (inbound ''stream'' ''msg-0-0.5'' (no_content\<lparr>ct_text := Some ''a''\<rparr>))),
      OnMessage (Parsed (inbound ''execute_result'' ''msg-0-0.5''
         (no_content\<lparr>ct_data := Some \<lparr>text_plain = Some ''b'', text_html = None, image_png = None\<rparr>\<rparr>))),
      OnMessage (Parsed (idle_for ''msg-0-0.5''))])
   = Resolved [\<lparr>er_id = ''c1'', er_hasError = Some True, er_output = ''ab'' @ [CHR 0x0A]\<rparr>]"
  by code_simp

section \<open>Errors reported by the kernel\<close>

text \<open>
  C3. While a block is current and the promise is pending, an error message whose parent is
  the pending request is handled without an exception: the current block's \<open>hasError\<close>
  becomes true and the fragment \<open>Error: ename, evalue, traceback\<close> (joined by newlines) is
  appended to the request's output; the promise stays pending and the index stays. The idle
  status that follows advances to the next block, stores that output as the block's result
  and does not reject the promise. When a block follows, that idle status sends the next
  block's request and the promise stays pending; when the block was the last one, it closes
  the session and resolves the promise, and the block's result has \<open>hasError\<close> true and the
  fragment at the end of its output. However the run goes on, a resolved promise reports
  \<open>hasError\<close> true for that block; and in a run that began with the open signal, when the
  kernel answers this and every later request with an idle status (two requests in a row
  never getting the same id), the promise is resolved, with \<open>hasError\<close> true for that block.
\<close>

theorem kernel_error_marks_current_block:
  assumes "currentBlockIndex s < length (codeBlocks s)"
    and "messageStatus s pid = Some st" "pid \<noteq> []" "\<not> ms_done st"
    and "settled s = Pending"
    and "in_msg_type m = Some ''error''" "in_parent m = Some pid"
    and "in_content m = Some c" "traceback c = Some tb"
    and "s1 = fst (onmessage e s (Parsed m))"
    and "s2 = fst (onmessage e s1 (Parsed (idle_for pid)))"
  shows "snd (onmessage e s (Parsed m)) = None
         \<and> cb_hasError (codeBlocks s1 ! currentBlockIndex s) = Some True
         \<and> messageStatus s1 pid = Some (st\<lparr>ms_output := ms_output st @ error_output c tb\<rparr>)
         \<and> settled s1 = Pending \<and> currentBlockIndex s1 = currentBlockIndex s
         \<and> snd (onmessage e s1 (Parsed (idle_for pid))) = None
         \<and> currentBlockIndex s2 = Suc (currentBlockIndex s)
         \<and> results s2 (cb_id (codeBlocks s ! currentBlockIndex s)) = Some (ms_output st @ error_output c tb)
         \<and> (\<forall>msg. settled s2 \<noteq> Rejected msg)
         \<and> (\<forall>evs rs. settled (run e s1 evs) = Resolved rs \<longrightarrow>
               er_hasError (rs ! currentBlockIndex s) = Some True)
         \<and> (Suc (currentBlockIndex s) < length (codeBlocks s) \<longrightarrow>
               settled s2 = Pending
               \<and> sent s2 = sent s @ [createExecuteRequestMessage e (created s)
                                        (cb_code (codeBlocks s ! Suc (currentBlockIndex s)))])
         \<and> (\<not> Suc (currentBlockIndex s) < length (codeBlocks s) \<longrightarrow>
               closed s2 \<and> settled s2 = Resolved (collect_results s2)
               \<and> length (collect_results s2) = length (codeBlocks s)
               \<and> er_id (collect_results s2 ! currentBlockIndex s) = cb_id (codeBlocks s ! currentBlockIndex s)
               \<and> er_hasError (collect_results s2 ! currentBlockIndex s) = Some True
               \<and> er_output (collect_results s2 ! currentBlockIndex s) = ms_output st @ error_output c tb)
         \<and> (\<forall>srv kid blocks evs.
               blocks \<noteq> [] \<and> OnOpen \<notin> set evs
               \<and> s = run e (executeNotebookBlocks srv kid blocks) (OnOpen # evs)
               \<and> (\<forall>j. nonce e (Suc j) \<noteq> nonce e j) \<longrightarrow>
               (\<exists>rs. settled (run e s1 (answers e (currentBlockIndex s) (length (codeBlocks s))))
                        = Resolved rs
                     \<and> er_hasError (rs ! currentBlockIndex s) = Some True))"
proof -
  let ?st' = "st\<lparr>ms_output := ms_output st @ error_output c tb\<rparr>"
  let ?i = "currentBlockIndex s"
  note om = onmessage_error [OF assms(1,2,3,6,7,8,9), of e]
  have thr: "snd (onmessage e s (Parsed m)) = None"
    unfolding om using assms(1) by (simp add: finish_throws)
  have blocks1: "codeBlocks s1 = (codeBlocks s)[?i := (codeBlocks s ! ?i)\<lparr>cb_hasError := Some True\<rparr>]"
    unfolding assms(10) om by (simp add: finish_fields)
  have idx1: "currentBlockIndex s1 = ?i" unfolding assms(10) om by (simp add: finish_fields)
  have set1: "settled s1 = Pending" unfolding assms(10) om using assms(5) by (simp add: finish_fields)
  have ms1: "messageStatus s1 pid = Some ?st'"
    unfolding assms(10) om using assms(1) by (simp add: finish_messageStatus)
  have he: "cb_hasError (codeBlocks s1 ! ?i) = Some True"
    unfolding blocks1 using assms(1) by simp
  have len1: "?i < length (codeBlocks s1)" unfolding blocks1 using assms(1) by simp
  have nd: "\<not> ms_done ?st'" using assms(4) by simp
  note oi = onmessage_idle [OF ms1 assms(3) nd, of e]
  have cur1: "currentBlockIndex s1 < length (codeBlocks s1)" using len1 idx1 by simp
  have id1: "cb_id (codeBlocks s1 ! currentBlockIndex s1) = cb_id (codeBlocks s ! ?i)"
    unfolding idx1 blocks1 using assms(1) by simp
  have thr2: "snd (onmessage e s1 (Parsed (idle_for pid))) = None"
    unfolding oi by (rule on_idle_advance(3) [OF cur1])
  have idx2: "currentBlockIndex s2 = Suc ?i"
    unfolding assms(11) oi using on_idle_advance(1) [OF cur1, of e pid ?st'] idx1 by simp
  have res2: "results s2 (cb_id (codeBlocks s ! ?i)) = Some (ms_output st @ error_output c tb)"
    unfolding assms(11) oi using on_idle_advance(2) [OF cur1, of e pid ?st'] id1 by simp
  have set2: "\<forall>msg. settled s2 \<noteq> Rejected msg"
    unfolding assms(11) oi using on_idle_advance(4) [OF cur1 set1] by simp
  have later: "\<forall>evs rs. settled (run e s1 evs) = Resolved rs \<longrightarrow> er_hasError (rs ! ?i) = Some True"
  proof (intro allI impI)
    fix evs rs assume r: "settled (run e s1 evs) = Resolved rs"
    from run_hasError_mono [OF len1, of "Some True" e evs] set1 he r
    show "er_hasError (rs ! ?i) = Some True" by auto
  qed
  have s2: "s2 = fst (on_idle e s1 pid ?st')" unfolding assms(11) oi ..
  have sent1: "sent s1 = sent s" and cr1: "created s1 = created s"
    unfolding assms(10) om by (simp_all add: finish_fields)
  have cb2: "codeBlocks s2 = codeBlocks s1" unfolding s2 by (rule on_idle_codeBlocks)
  have lens: "length (codeBlocks s1) = length (codeBlocks s)" unfolding blocks1 by simp
  have more: "Suc ?i < length (codeBlocks s) \<longrightarrow>
               settled s2 = Pending
               \<and> sent s2 = sent s @ [createExecuteRequestMessage e (created s)
                                        (cb_code (codeBlocks s ! Suc ?i))]"
  proof
    assume a: "Suc ?i < length (codeBlocks s)"
    then have m1: "Suc (currentBlockIndex s1) < length (codeBlocks s1)" using idx1 lens by simp
    have nxt: "codeBlocks s1 ! Suc ?i = codeBlocks s ! Suc ?i" unfolding blocks1 by simp
    show "settled s2 = Pending
               \<and> sent s2 = sent s @ [createExecuteRequestMessage e (created s)
                                        (cb_code (codeBlocks s ! Suc ?i))]"
      unfolding s2 on_idle_next [OF m1] using set1 sent1 cr1 idx1 nxt by simp
  qed
  have last: "\<not> Suc ?i < length (codeBlocks s) \<longrightarrow>
               closed s2 \<and> settled s2 = Resolved (collect_results s2)
               \<and> length (collect_results s2) = length (codeBlocks s)
               \<and> er_id (collect_results s2 ! ?i) = cb_id (codeBlocks s ! ?i)
               \<and> er_hasError (collect_results s2 ! ?i) = Some True
               \<and> er_output (collect_results s2 ! ?i) = ms_output st @ error_output c tb"
  proof
    assume a: "\<not> Suc ?i < length (codeBlocks s)"
    then have n1: "\<not> Suc (currentBlockIndex s1) < length (codeBlocks s1)" using idx1 lens by simp
    have fin: "closed s2 \<and> settled s2 = Resolved (collect_results s2)"
      unfolding s2 on_idle_last [OF cur1 n1] using set1 by (simp add: Let_def collect_results_def)
    have i2: "?i < length (codeBlocks s2)" using len1 cb2 by simp
    have nth: "collect_results s2 ! ?i =
        \<lparr>er_id = cb_id (codeBlocks s2 ! ?i), er_hasError = cb_hasError (codeBlocks s2 ! ?i),
         er_output = (case results s2 (cb_id (codeBlocks s2 ! ?i)) of None \<Rightarrow> [] | Some out \<Rightarrow> out)\<rparr>"
      unfolding collect_results_def using i2 by simp
    have idk: "cb_id (codeBlocks s2 ! ?i) = cb_id (codeBlocks s ! ?i)" using id1 idx1 cb2 by simp
    have "er_output (collect_results s2 ! ?i) = ms_output st @ error_output c tb"
      unfolding nth using res2 idk by simp
    moreover have "er_hasError (collect_results s2 ! ?i) = Some True"
      unfolding nth using he cb2 by simp
    moreover have "er_id (collect_results s2 ! ?i) = cb_id (codeBlocks s ! ?i)"
      unfolding nth using idk by simp
    moreover have "length (collect_results s2) = length (codeBlocks s)"
      using cb2 lens by (simp add: collect_results_def)
    ultimately show "closed s2 \<and> settled s2 = Resolved (collect_results s2)
               \<and> length (collect_results s2) = length (codeBlocks s)
               \<and> er_id (collect_results s2 ! ?i) = cb_id (codeBlocks s ! ?i)
               \<and> er_hasError (collect_results s2 ! ?i) = Some True
               \<and> er_output (collect_results s2 ! ?i) = ms_output st @ error_output c tb"
      using fin by simp
  qed
  have reach: "\<forall>srv kid blocks evs.
               blocks \<noteq> [] \<and> OnOpen \<notin> set evs
               \<and> s = run e (executeNotebookBlocks srv kid blocks) (OnOpen # evs)
               \<and> (\<forall>j. nonce e (Suc j) \<noteq> nonce e j) \<longrightarrow>
               (\<exists>rs. settled (run e s1 (answers e ?i (length (codeBlocks s)))) = Resolved rs
                     \<and> er_hasError (rs ! ?i) = Some True)"
  proof (intro allI impI)
    fix srv kid blocks evs
    assume a: "blocks \<noteq> [] \<and> OnOpen \<notin> set evs
               \<and> s = run e (executeNotebookBlocks srv kid blocks) (OnOpen # evs)
               \<and> (\<forall>j. nonce e (Suc j) \<noteq> nonce e j)"
    then have s: "s = run e (step e (executeNotebookBlocks srv kid blocks) OnOpen) evs"
      by (simp add: run_def)
    have inv: "seq_inv e s"
      unfolding s using a by (intro seq_inv_run seq_inv_open) simp_all
    have pid: "pid = ''msg-'' @ nonce e ?i"
      by (rule seq_inv_pending_id [OF inv assms(2,4)])
    have s1: "s1 = step e s (OnMessage (Parsed m))" unfolding assms(10) by (simp add: step_def)
    have inv1: "seq_inv e s1" unfolding s1 using inv by (simp add: seq_inv_step)
    have ms1': "messageStatus s1 (''msg-'' @ nonce e ?i) = Some ?st'" using ms1 pid by simp
    from a have fresh: "\<forall>j. nonce e (Suc j) \<noteq> nonce e j" by simp
    from waiting_run [OF inv1 idx1 len1 set1 ms1' nd fresh]
    obtain rs where "settled (run e s1 (answers e ?i (length (codeBlocks s1)))) = Resolved rs" ..
    with later lens show "\<exists>rs. settled (run e s1 (answers e ?i (length (codeBlocks s)))) = Resolved rs
                     \<and> er_hasError (rs ! ?i) = Some True"
      by auto
  qed
  from thr he ms1 set1 idx1 thr2 idx2 res2 set2 later more last reach show ?thesis by blast
qed

theorem kernel_error_marks_current_block_witness:
  "currentBlockIndex (step demo_env (executeNotebookBlocks demo_server ''k''
        [demo_block ''c1'' None, demo_block ''c2'' None]) OnOpen)
     < length (codeBlocks (step demo_env (executeNotebookBlocks demo_server ''k''
        [demo_block ''c1'' None, demo_block ''c2'' None]) OnOpen))
   \<and> messageStatus (step demo_env (executeNotebookBlocks demo_server ''k''
        [demo_block ''c1'' None, demo_block ''c2'' None]) OnOpen) ''msg-0-0.5''
       = Some \<lparr>ms_done = False, ms_output = ''''\<rparr>
   \<and> settled (step demo_env (executeNotebookBlocks demo_server ''k''
        [demo_block ''c1'' None, demo_block ''c2'' None]) OnOpen) = Pending
   \<and> error_output (no_content\<lparr>ename := Some ''ValueError'', evalue := Some ''bad'',
                                traceback := Some [''line1'', ''line2'']\<rparr>) [''line1'', ''line2'']
       = ''Error: ValueError'' @ [CHR 0x0A] @ ''bad'' @ [CHR 0x0A] @ ''line1'' @ [CHR 0x0A] @ ''line2''
   \<and> cb_hasError (codeBlocks (fst (onmessage demo_env
          (step demo_env (executeNotebookBlocks demo_server ''k''
             [demo_block ''c1'' None, demo_block ''c2'' None]) OnOpen)
          (Parsed (inbound ''error'' ''msg-0-0.5''
             (no_content\<lparr>ename := Some ''ValueError'', evalue := Some ''bad'',
                          traceback := Some [''line1'', ''line2'']\<rparr>)))))
        ! currentBlockIndex (step demo_env (executeNotebookBlocks demo_server ''k''
             [demo_block ''c1'' None, demo_block ''c2'' None]) OnOpen)) = Some True
   \<and> settled (fst (onmessage demo_env (fst (onmessage demo_env
          (step demo_env (executeNotebookBlocks demo_server ''k''
             [demo_block ''c1'' None, demo_block ''c2'' None]) OnOpen)
          (Parsed (inbound ''error'' ''msg-0-0.5''
             (no_content\<lparr>ename := Some ''ValueError'', evalue := Some ''bad'',
                          traceback := Some [''line1'', ''line2'']\<rparr>)))))
        (Parsed (idle_for ''msg-0-0.5'')))) = Pending
   \<and> map code (sent (fst (onmessage demo_env (fst (onmessage demo_env
          (step demo_env (executeNotebookBlocks demo_server ''k''
             [demo_block ''c1'' None, demo_block ''c2'' None]) OnOpen)
          (Parsed (inbound ''error'' ''msg-0-0.5''
             (no_content\<lparr>ename := Some ''ValueError'', evalue := Some ''bad'',
                          traceback := Some [''line1'', ''line2'']\<rparr>)))))
        (Parsed (idle_for ''msg-0-0.5''))))) = [''1+1'', ''1+1'']
   \<and> settled (run demo_env
        (fst (onmessage demo_env
          (step demo_env (executeNotebookBlocks demo_server ''k''
             [demo_block ''c1'' None, demo_block ''c2'' None]) OnOpen)
          (Parsed (inbound ''error'' ''msg-0-0.5''
             (no_content\<lparr>ename := Some ''ValueError'', evalue := Some ''bad'',
                          traceback := Some [''line1'', ''line2'']\<rparr>)))))
        [OnMessage (Parsed (idle_for ''msg-0-0.5'')), OnMessage (Parsed (idle_for ''msg-1-0.5''))])
       = Resolved [\<lparr>er_id = ''c1'', er_hasError = Some True,
                     er_output = ''Error: ValueError'' @ [CHR 0x0A] @ ''bad'' @ [CHR 0x0A] @ ''line1''
                                 @ [CHR 0x0A] @ ''line2''\<rparr>,
                   \<lparr>er_id = ''c2'', er_hasError = None, er_output = ''''\<rparr>]"
proof -
  let ?s = "step demo_env (executeNotebookBlocks demo_server ''k''
        [demo_block ''c1'' None, demo_block ''c2'' None]) OnOpen"
  let ?c = "no_content\<lparr>ename := Some ''ValueError'', evalue := Some ''bad'',
                          traceback := Some [''line1'', ''line2'']\<rparr>"
  let ?m = "inbound ''error'' ''msg-0-0.5'' ?c"
  let ?st = "\<lparr>ms_done = False, ms_output = ''''\<rparr>"
  have h1: "currentBlockIndex ?s < length (codeBlocks ?s)" by code_simp
  have h2: "messageStatus ?s ''msg-0-0.5'' = Some ?st" by code_simp
  have h3: "''msg-0-0.5'' \<noteq> []" by simp
  have h4: "\<not> ms_done ?st" by simp
  have h5: "settled ?s = Pending" by code_simp
  have h6: "in_msg_type ?m = Some ''error''" by simp
  have h7: "in_parent ?m = Some ''msg-0-0.5''" by simp
  have h8: "in_content ?m = Some ?c" by simp
  have h9: "traceback ?c = Some [''line1'', ''line2'']" by simp
  have eo: "error_output ?c [''line1'', ''line2'']
       = ''Error: ValueError'' @ [CHR 0x0A] @ ''bad'' @ [CHR 0x0A] @ ''line1'' @ [CHR 0x0A] @ ''line2''"
    by code_simp
  have fin: "settled (run demo_env (fst (onmessage demo_env ?s (Parsed ?m)))
        [OnMessage (Parsed (idle_for ''msg-0-0.5'')), OnMessage (Parsed (idle_for ''msg-1-0.5''))])
       = Resolved [\<lparr>er_id = ''c1'', er_hasError = Some True,
                     er_output = ''Error: ValueError'' @ [CHR 0x0A] @ ''bad'' @ [CHR 0x0A] @ ''line1''
                                 @ [CHR 0x0A] @ ''line2''\<rparr>,
                   \<lparr>er_id = ''c2'', er_hasError = None, er_output = ''''\<rparr>]"
    by code_simp
  let ?s2 = "fst (onmessage demo_env (fst (onmessage demo_env ?s (Parsed ?m)))
                (Parsed (idle_for ''msg-0-0.5'')))"
  have more: "Suc (currentBlockIndex ?s) < length (codeBlocks ?s)" by code_simp
  have snt: "map code (sent ?s) = [''1+1'']" by code_simp
  have nxt: "cb_code (codeBlocks ?s ! Suc (currentBlockIndex ?s)) = ''1+1''" by code_simp
  note ke = kernel_error_marks_current_block [OF h1 h2 h3 h4 h5 h6 h7 h8 h9 refl refl, of demo_env]
  from ke
  have he: "cb_hasError (codeBlocks (fst (onmessage demo_env ?s (Parsed ?m))) ! currentBlockIndex ?s) = Some True"
    by blast
  from ke more
  have adv: "settled ?s2 = Pending"
    and sent2: "sent ?s2 = sent ?s @ [createExecuteRequestMessage demo_env (created ?s)
                  (cb_code (codeBlocks ?s ! Suc (currentBlockIndex ?s)))]"
    by blast+
  have codes: "map code (sent ?s2) = [''1+1'', ''1+1'']"
    unfolding sent2 using snt nxt by (simp add: createExecuteRequestMessage_fields)
  from h1 h2 h5 eo he adv codes fin show ?thesis by blast
qed

section \<open>Messages that the handler does not process\<close>

text \<open>
  C4. An inbound message whose \<open>parent_header.msg_id\<close> is absent, or is no key of the
  pending-request map, leaves the whole state of the run as it was: no output changes, the
  current index does not advance, \<open>onOutput\<close> is not called, and the handler returns
  without an exception.
\<close>

theorem unmatched_message_ignored:
  assumes "in_parent m = None \<or> messageStatus s (the (in_parent m)) = None"
  shows "onmessage e s (Parsed m) = (s, None) \<and> step e s (OnMessage (Parsed m)) = s"
  using assms by (auto simp: onmessage_def step_def truthy_def split: option.splits)

theorem unmatched_message_ignored_witness:
  "(in_parent (inbound ''stream'' ''msg-elsewhere'' (no_content\<lparr>ct_text := Some ''x''\<rparr>)) = None
      \<or> messageStatus (step demo_env (executeNotebookBlocks demo_server ''k'' [demo_block ''c1'' None]) OnOpen)
           (the (in_parent (inbound ''stream'' ''msg-elsewhere'' (no_content\<lparr>ct_text := Some ''x''\<rparr>)))) = None)
   \<and> onmessage demo_env (step demo_env (executeNotebookBlocks demo_server ''k'' [demo_block ''c1'' None]) OnOpen)
        (Parsed (inbound ''stream'' ''msg-elsewhere'' (no_content\<lparr>ct_text := Some ''x''\<rparr>)))
      = (step demo_env (executeNotebookBlocks demo_server ''k'' [demo_block ''c1'' None]) OnOpen, None)"
proof -
  have h: "in_parent (inbound ''stream'' ''msg-elsewhere'' (no_content\<lparr>ct_text := Some ''x''\<rparr>)) = None
      \<or> messageStatus (step demo_env (executeNotebookBlocks demo_server ''k'' [demo_block ''c1'' None]) OnOpen)
           (the (in_parent (inbound ''stream'' ''msg-elsewhere'' (no_content\<lparr>ct_text := Some ''x''\<rparr>)))) = None"
    by code_simp
  from unmatched_message_ignored [OF h, of demo_env] h show ?thesis by blast
qed

section \<open>The close signal\<close>

text \<open>
  C5. Let the close signal fire after any events of a run. When blocks remain (the current
  index is below the length of the batch), the session was not closed by the run and the
  close signal leaves the promise rejected, with the error
  \<open>WebSocket closed before execution completed\<close> if it was still pending (a promise already
  rejected keeps its error); when no block remains, the close signal changes nothing, and
  for a batch that is not empty the run itself had closed the session.
\<close>

theorem close_rejects_unfinished_batch:
  assumes "s = run e (executeNotebookBlocks srv kid blocks) evs"
    and "s' = run e (executeNotebookBlocks srv kid blocks) (evs @ [OnClose])"
  shows "s' = step e s OnClose
         \<and> (if currentBlockIndex s < length (codeBlocks s)
             then (settled s = Pending
                     \<and> settled s' = Rejected ''WebSocket closed before execution completed''
                   \<or> settled s \<noteq> Pending \<and> settled s' = settled s)
                  \<and> (case settled s' of Rejected msg \<Rightarrow> True | _ \<Rightarrow> False)
                  \<and> \<not> closed s
             else s' = s \<and> closed s = (blocks \<noteq> []))"
proof -
  have st: "s' = step e s OnClose" unfolding assms by (rule run_snoc)
  have oc: "step e s OnClose = onclose s" by (simp add: step_def)
  have inv: "progress_inv s" unfolding assms(1) by (rule progress_inv_run [OF progress_inv_init])
  have len: "length (codeBlocks s) = length blocks"
    unfolding assms(1) by (simp add: run_frame executeNotebookBlocks_def)
  show ?thesis
  proof (cases "currentBlockIndex s < length (codeBlocks s)")
    case True
    with inv have nc: "\<not> closed s" and nr: "\<forall>rs. settled s \<noteq> Resolved rs"
      unfolding progress_inv_def by auto
    from nr True show ?thesis
      unfolding st oc by (cases "settled s") (simp_all add: onclose_def reject_def nc)
  next
    case False
    with inv len show ?thesis unfolding st oc progress_inv_def by (auto simp: onclose_def)
  qed
qed

theorem close_rejects_unfinished_batch_witness:
  "currentBlockIndex (run demo_env
       (executeNotebookBlocks demo_server ''k'' [demo_block ''c1'' None, demo_block ''c2'' None, demo_block ''c3'' None])
       [OnOpen, OnMessage (Parsed (idle_for ''msg-0-0.5'')), OnMessage (Parsed (idle_for ''msg-1-0.5''))]) = 2
   \<and> settled (run demo_env
       (executeNotebookBlocks demo_server ''k'' [demo_block ''c1'' None, demo_block ''c2'' None, demo_block ''c3'' None])
       [OnOpen, OnMessage (Parsed (idle_for ''msg-0-0.5'')), OnMessage (Parsed (idle_for ''msg-1-0.5''))]) = Pending
   \<and> settled (run demo_env
       (executeNotebookBlocks demo_server ''k'' [demo_block ''c1'' None, demo_block ''c2'' None, demo_block ''c3'' None])
       ([OnOpen, OnMessage (Parsed (idle_for ''msg-0-0.5'')), OnMessage (Parsed (idle_for ''msg-1-0.5''))]
        @ [OnClose]))
       = Rejected ''WebSocket closed before execution completed''"
proof -
  let ?s = "run demo_env
       (executeNotebookBlocks demo_server ''k'' [demo_block ''c1'' None, demo_block ''c2'' None, demo_block ''c3'' None])
       [OnOpen, OnMessage (Parsed (idle_for ''msg-0-0.5'')), OnMessage (Parsed (idle_for ''msg-1-0.5''))]"
  let ?s' = "run demo_env
       (executeNotebookBlocks demo_server ''k'' [demo_block ''c1'' None, demo_block ''c2'' None, demo_block ''c3'' None])
       ([OnOpen, OnMessage (Parsed (idle_for ''msg-0-0.5'')), OnMessage (Parsed (idle_for ''msg-1-0.5''))]
        @ [OnClose])"
  have i: "currentBlockIndex ?s = 2" by code_simp
  have l: "length (codeBlocks ?s) = 3" by code_simp
  have p: "settled ?s = Pending" by code_simp
  from close_rejects_unfinished_batch [OF refl refl, of demo_env demo_server "''k''"
      "[demo_block ''c1'' None, demo_block ''c2'' None, demo_block ''c3'' None]"
      "[OnOpen, OnMessage (Parsed (idle_for ''msg-0-0.5'')), OnMessage (Parsed (idle_for ''msg-1-0.5''))]"]
  have "if currentBlockIndex ?s < length (codeBlocks ?s)
        then (settled ?s = Pending \<and> settled ?s' = Rejected ''WebSocket closed before execution completed''
              \<or> settled ?s \<noteq> Pending \<and> settled ?s' = settled ?s)
             \<and> (case settled ?s' of Rejected msg \<Rightarrow> True | _ \<Rightarrow> False) \<and> \<not> closed ?s
        else ?s' = ?s \<and> closed ?s = ([demo_block ''c1'' None, demo_block ''c2'' None, demo_block ''c3'' None] \<noteq> [])"
    by (rule conjunct2)
  then have "settled ?s' = Rejected ''WebSocket closed before execution completed''"
    unfolding i l p by simp
  with i p show ?thesis by simp
qed

section \<open>The empty batch\<close>

text \<open>
  C6, evaluated on the code. For an empty batch the socket is still constructed, nothing is
  sent, and no event resolves the promise: after any events the state is the initial one,
  with the promise pending, or rejected with \<open>WebSocket error\<close> if the error signal fired.
\<close>

theorem empty_batch_never_resolves:
  "run e (executeNotebookBlocks srv kid []) evs =
     (if OnError \<in> set evs
      then (executeNotebookBlocks srv kid [])\<lparr>settled := Rejected ''WebSocket error''\<rparr>
      else executeNotebookBlocks srv kid [])"
proof -
  have "codeBlocks (executeNotebookBlocks srv kid []) = []"
    "messageStatus (executeNotebookBlocks srv kid []) = Map.empty"
    "settled (executeNotebookBlocks srv kid []) = Pending"
    by (simp_all add: executeNotebookBlocks_def)
  then show ?thesis by (simp add: empty_run reject_def)
qed

section \<open>Malformed payloads\<close>

text \<open>
  C7, as the code has it. A payload that \<open>JSON.parse\<close> rejects makes the handler throw the
  parser's SyntaxError: nothing catches it. The state of the run is untouched, the promise is
  not settled by it, and the events that follow are handled as if the payload had not come.
\<close>

theorem unparseable_payload_raises:
  "onmessage e s Unparseable = (s, Some SyntaxError)
   \<and> step e s (OnMessage Unparseable) = s
   \<and> run e s (OnMessage Unparseable # evs) = run e s evs"
  by (simp add: onmessage_def step_def run_def)

text \<open>The handler does raise on a malformed payload: here after the first request was sent.\<close>

theorem unparseable_payload_counterexample:
  "snd (onmessage demo_env
          (step demo_env (executeNotebookBlocks demo_server ''k'' [demo_block ''c1'' None]) OnOpen)
          Unparseable) = Some SyntaxError"
  by (simp add: onmessage_def)

section \<open>Errors of the lifecycle client\<close>

text \<open>
  C8, evaluated on the code. On a response that is not 2xx, \<open>deleteKernel\<close> and
  \<open>listKernels\<close> fail with the status text alone, without the status code and the body;
  \<open>listKernels\<close> on a 2xx response that is not JSON fails with the parser's SyntaxError.
  \<open>createKernel\<close> carries the status code, the status text and the body, and reports a
  2xx response that is not JSON as an invalid response format.
\<close>

theorem lifecycle_errors_evaluated:
  "deleteKernel (\<lambda>rq. Responded \<lparr>rs_status = 404, rs_statusText = ''Not Found'',
        rs_text = ''no such kernel'', rs_json = NotJson\<rparr>) demo_server ''k1''
     = Inl (Error ''Failed to delete kernel: Not Found'')
   \<and> listKernels (\<lambda>rq. Responded \<lparr>rs_status = 403, rs_statusText = ''Forbidden'',
        rs_text = ''bad token'', rs_json = NotJson\<rparr>) demo_server
     = Inl (Error ''Failed to list kernels: Forbidden'')
   \<and> listKernels (\<lambda>rq. Responded \<lparr>rs_status = 200, rs_statusText = ''OK'',
        rs_text = ''<html>'', rs_json = NotJson\<rparr>) demo_server
     = Inl (Thrown SyntaxError)
   \<and> createKernel (\<lambda>rq. Responded \<lparr>rs_status = 404, rs_statusText = ''Not Found'',
        rs_text = ''no such kernel'', rs_json = NotJson\<rparr>) demo_server ''python3''
     = Inl (Error ''Failed to create kernel: 404 Not Found - no such kernel'')
   \<and> createKernel (\<lambda>rq. Responded \<lparr>rs_status = 200, rs_statusText = ''OK'',
        rs_text = ''<html>'', rs_json = NotJson\<rparr>) demo_server ''python3''
     = Inl (Error ''Invalid response format from Jupyter server'')"
  by code_simp

section \<open>Messages after the last block\<close>

text \<open>
  C9. Once the current index has reached the length of the batch, a message that matches a
  recorded request and yields a non-empty fragment makes the handler, when \<open>onOutput\<close> was
  supplied, read \<open>codeBlocks[currentBlockIndex]\<close> beyond the list and throw a TypeError;
  the callback is not called.
\<close>

theorem late_message_throws:
  assumes "length (codeBlocks s) \<le> currentBlockIndex s"
    and "in_parent m = Some pid" "pid \<noteq> []" "messageStatus s pid = Some st"
    and "fragment m \<noteq> []" "onOutput e"
  shows "snd (onmessage e s (Parsed m)) = Some TypeError
         \<and> emitted (fst (onmessage e s (Parsed m))) = emitted s"
  using assms by (simp add: onmessage_def truthy_def dispatch_fragment_throws)

theorem late_message_throws_witness:
  "length (codeBlocks (run demo_env (executeNotebookBlocks demo_server ''k'' [demo_block ''c1'' None])
             [OnOpen, OnMessage (Parsed (idle_for ''msg-0-0.5''))]))
     \<le> currentBlockIndex (run demo_env (executeNotebookBlocks demo_server ''k'' [demo_block ''c1'' None])
             [OnOpen, OnMessage (Parsed (idle_for ''msg-0-0.5''))])
   \<and> messageStatus (run demo_env (executeNotebookBlocks demo_server ''k'' [demo_block ''c1'' None])
             [OnOpen, OnMessage (Parsed (idle_for ''msg-0-0.5''))]) ''msg-0-0.5''
       = Some \<lparr>ms_done = True, ms_output = ''''\<rparr>
   \<and> fragment (inbound ''stream'' ''msg-0-0.5'' (no_content\<lparr>ct_text := Some ''late''\<rparr>)) \<noteq> []
   \<and> onOutput demo_env
   \<and> snd (onmessage demo_env
        (run demo_env (executeNotebookBlocks demo_server ''k'' [demo_block ''c1'' None])
             [OnOpen, OnMessage (Parsed (idle_for ''msg-0-0.5''))])
        (Parsed (inbound ''stream'' ''msg-0-0.5'' (no_content\<lparr>ct_text := Some ''late''\<rparr>)))) = Some TypeError"
proof -
  let ?s = "run demo_env (executeNotebookBlocks demo_server ''k'' [demo_block ''c1'' None])
             [OnOpen, OnMessage (Parsed (idle_for ''msg-0-0.5''))]"
  let ?m = "inbound ''stream'' ''msg-0-0.5'' (no_content\<lparr>ct_text := Some ''late''\<rparr>)"
  have h1: "length (codeBlocks ?s) \<le> currentBlockIndex ?s" by code_simp
  have h2: "in_parent ?m = Some ''msg-0-0.5''" by simp
  have h3: "''msg-0-0.5'' \<noteq> []" by simp
  have h4: "messageStatus ?s ''msg-0-0.5'' = Some \<lparr>ms_done = True, ms_output = ''''\<rparr>" by code_simp
  have h5: "fragment ?m \<noteq> []" by code_simp
  have h6: "onOutput demo_env" by simp
  from late_message_throws [OF h1 h2 h3 h4 h5 h6] h1 h4 h5 h6 show ?thesis by blast
qed

section \<open>The error flag is never cleared\<close>

text \<open>
  C10. After any events, the \<open>hasError\<close> of a block is the value it was passed in with, or
  true; so is the \<open>hasError\<close> of its result in a resolved promise, and when no error message
  was processed while the block was current, the result carries the value the block was
  passed in with. A block passed in with \<open>hasError\<close> true is therefore reported with
  \<open>hasError\<close> true.
\<close>

theorem hasError_never_cleared:
  assumes "i < length blocks"
  shows "(cb_hasError (codeBlocks (run e (executeNotebookBlocks srv kid blocks) evs) ! i) = cb_hasError (blocks ! i)
            \<or> cb_hasError (codeBlocks (run e (executeNotebookBlocks srv kid blocks) evs) ! i) = Some True)
         \<and> (\<forall>rs. settled (run e (executeNotebookBlocks srv kid blocks) evs) = Resolved rs \<longrightarrow>
               (er_hasError (rs ! i) = cb_hasError (blocks ! i) \<or> er_hasError (rs ! i) = Some True)
               \<and> (error_free_for e i (executeNotebookBlocks srv kid blocks) evs \<longrightarrow>
                     er_hasError (rs ! i) = cb_hasError (blocks ! i)))"
proof -
  let ?s = "executeNotebookBlocks srv kid blocks"
  have i: "i < length (codeBlocks ?s)" and b: "codeBlocks ?s = blocks" and p: "settled ?s = Pending"
    using assms by (simp_all add: executeNotebookBlocks_def)
  have mono: "(cb_hasError (codeBlocks (run e ?s evs) ! i) = cb_hasError (blocks ! i)
            \<or> cb_hasError (codeBlocks (run e ?s evs) ! i) = Some True)
         \<and> (\<forall>rs. settled (run e ?s evs) = Resolved rs \<longrightarrow>
                er_hasError (rs ! i) = cb_hasError (blocks ! i) \<or> er_hasError (rs ! i) = Some True)"
    by (rule run_hasError_mono [OF i]) (simp_all add: p b)
  have kept: "error_free_for e i ?s evs \<Longrightarrow>
      (\<forall>rs. settled (run e ?s evs) = Resolved rs \<longrightarrow> er_hasError (rs ! i) = cb_hasError (blocks ! i))"
    using run_hasError_kept [of e i ?s evs] i p b by simp
  from mono kept show ?thesis by blast
qed

theorem hasError_never_cleared_witness:
  "0 < length [demo_block ''c1'' (Some True)]
   \<and> error_free_for demo_env 0 (executeNotebookBlocks demo_server ''k'' [demo_block ''c1'' (Some True)])
        [OnOpen,
         OnMessage (Parsed (inbound ''stream'' ''msg-0-0.5'' (no_content\<lparr>ct_text := Some ''ok''\<rparr>))),
         OnMessage (Parsed (idle_for ''msg-0-0.5''))]
   \<and> settled (run demo_env (executeNotebookBlocks demo_server ''k'' [demo_block ''c1'' (Some True)])
        [OnOpen,
         OnMessage (Parsed (inbound ''stream'' ''msg-0-0.5'' (no_content\<lparr>ct_text := Some ''ok''\<rparr>))),
         OnMessage (Parsed (idle_for ''msg-0-0.5''))])
       = Resolved [\<lparr>er_id = ''c1'', er_hasError = Some True, er_output = ''ok''\<rparr>]
   \<and> er_hasError ([\<lparr>er_id = ''c1'', er_hasError = Some True, er_output = ''ok''\<rparr>] ! 0)
       = cb_hasError ([demo_block ''c1'' (Some True)] ! 0)"
proof -
  let ?blocks = "[demo_block ''c1'' (Some True)]"
  let ?evs = "[OnOpen,
         OnMessage (Parsed (inbound ''stream'' ''msg-0-0.5'' (no_content\<lparr>ct_text := Some ''ok''\<rparr>))),
         OnMessage (Parsed (idle_for ''msg-0-0.5''))]"
  have h: "0 < length ?blocks" by simp
  have ef: "error_free_for demo_env 0 (executeNotebookBlocks demo_server ''k'' ?blocks) ?evs"
    by code_simp
  have r: "settled (run demo_env (executeNotebookBlocks demo_server ''k'' ?blocks) ?evs)
       = Resolved [\<lparr>er_id = ''c1'', er_hasError = Some True, er_output = ''ok''\<rparr>]"
    by code_simp
  from hasError_never_cleared [OF h, of demo_env demo_server "''k''" ?evs] r ef
  have "er_hasError ([\<lparr>er_id = ''c1'', er_hasError = Some True, er_output = ''ok''\<rparr>] ! 0)
       = cb_hasError (?blocks ! 0)" by blast
  with h ef r show ?thesis by blast
qed

end
